theory Spec2Isabelle
  imports Complex_Main "HOL-Library.AList"
begin

section \<open>Values\<close>

text \<open>
  The loader works on what \<^verbatim>\<open>response.json()\<close> hands it: untyped JavaScript values.
  An object is an association list in the object's own key order, with distinct keys
  (\<^verbatim>\<open>JSON.parse\<close> keeps one binding per key). \<^verbatim>\<open>undefined\<close> is \<open>None\<close> of
  \<open>json option\<close>. Numbers are exact rationals: IEEE rounding, \<^verbatim>\<open>NaN\<close> and the
  infinities are outside the model. Strings are ASCII character lists.

  A plain object literal of the source inherits from \<^verbatim>\<open>Object.prototype\<close>, so a
  property read that misses the own keys can return one of its members. Those values are
  the constructor \<open>builtin\<close>.
\<close>

datatype builtin = ObjectConstructor | ObjectPrototype | PrototypeMethod string

datatype json =
    JNull
  | JBool bool
  | JNum rat
  | JStr string
  | JArr "json list"
  | JObj "(string \<times> json) list"
  | JBuiltin builtin

text \<open>
  \<open>TypeError\<close> and \<open>SyntaxError\<close> are the exceptions the source can throw on these
  values. \<open>OutsideModel\<close> marks an input on which the source goes on with a value the
  model has no term for (an implicit conversion to \<^verbatim>\<open>NaN\<close>, indexing into a string,
  an array that gains named properties): the model makes no statement about it.
\<close>

datatype error = TypeError | SyntaxError | OutsideModel

definition andThen :: "error + 'a \<Rightarrow> ('a \<Rightarrow> error + 'b) \<Rightarrow> error + 'b" where
  "andThen m f = (case m of Inl e \<Rightarrow> Inl e | Inr x \<Rightarrow> f x)"

fun truthy :: "json \<Rightarrow> bool" where
  "truthy JNull = False"
| "truthy (JBool b) = b"
| "truthy (JNum r) = (r \<noteq> 0)"
| "truthy (JStr s) = (s \<noteq> [])"
| "truthy (JArr xs) = True"
| "truthy (JObj fs) = True"
| "truthy (JBuiltin b) = True"

fun truthyOpt :: "json option \<Rightarrow> bool" where
  "truthyOpt None = False"
| "truthyOpt (Some v) = truthy v"

fun typeof :: "json \<Rightarrow> string" where
  "typeof JNull = ''object''"
| "typeof (JBool b) = ''boolean''"
| "typeof (JNum r) = ''number''"
| "typeof (JStr s) = ''string''"
| "typeof (JArr xs) = ''object''"
| "typeof (JObj fs) = ''object''"
| "typeof (JBuiltin ObjectPrototype) = ''object''"
| "typeof (JBuiltin b) = ''function''"

text \<open>The members of \<^verbatim>\<open>Object.prototype\<close>, by name.\<close>

definition objectPrototypeLookup :: "string \<Rightarrow> json option" where
  "objectPrototypeLookup k =
     (if k = ''constructor'' then Some (JBuiltin ObjectConstructor)
      else if k = ''__proto__'' then Some (JBuiltin ObjectPrototype)
      else if k \<in> set [''hasOwnProperty'', ''isPrototypeOf'', ''propertyIsEnumerable'',
                        ''toLocaleString'', ''toString'', ''valueOf'', ''__defineGetter__'',
                        ''__defineSetter__'', ''__lookupGetter__'', ''__lookupSetter__'']
      then Some (JBuiltin (PrototypeMethod k))
      else None)"

text \<open>
  \<open>getProp v k\<close> is the read \<^verbatim>\<open>v.k\<close> (or \<^verbatim>\<open>v[k]\<close>) on a value that is not
  \<^verbatim>\<open>null\<close> or \<^verbatim>\<open>undefined\<close>. An object answers from its own keys, then from
  \<^verbatim>\<open>Object.prototype\<close>. On every other value the source only reads the names
  \<^verbatim>\<open>type\<close>, \<^verbatim>\<open>features\<close>, \<^verbatim>\<open>properties\<close>, \<^verbatim>\<open>geometry\<close>, \<^verbatim>\<open>coordinates\<close> and
  \<^verbatim>\<open>processed_at\<close> here, which no built-in prototype defines.
\<close>

fun getProp :: "json \<Rightarrow> string \<Rightarrow> json option" where
  "getProp (JObj fs) k =
     (case map_of fs k of Some v \<Rightarrow> Some v | None \<Rightarrow> objectPrototypeLookup k)"
| "getProp v k = None"

fun isArray :: "json option \<Rightarrow> bool" where
  "isArray (Some (JArr xs)) = True"
| "isArray v = False"

section \<open>DataLoader: validation\<close>

definition validTypes :: "string list" where
  "validTypes =
     [''FeatureCollection'', ''Feature'', ''Point'', ''LineString'', ''Polygon'',
      ''MultiPoint'', ''MultiLineString'', ''MultiPolygon'', ''GeometryCollection'']"

text \<open>\<^verbatim>\<open>list.includes(v)\<close> for a list of string literals.\<close>

fun arrayIncludes :: "string list \<Rightarrow> json option \<Rightarrow> bool" where
  "arrayIncludes xs (Some (JStr t)) = (t \<in> set xs)"
| "arrayIncludes xs v = False"

definition isValidGeoJSON :: "json \<Rightarrow> bool" where
  "isValidGeoJSON data =
     (if \<not> truthy data \<or> typeof data \<noteq> ''object'' then False
      else if \<not> truthyOpt (getProp data ''type'') then False
      else if \<not> arrayIncludes validTypes (getProp data ''type'') then False
      else if getProp data ''type'' = Some (JStr ''FeatureCollection'')
        then isArray (getProp data ''features'')
      else True)"

text \<open>
  The contract of \<^verbatim>\<open>Validate\<close> in the specification's words: the four reasons to
  reject a value.
\<close>

fun notAnObject :: "json \<Rightarrow> bool" where
  "notAnObject (JObj fs) = False"
| "notAnObject v = True"

fun ownField :: "json \<Rightarrow> string \<Rightarrow> json option" where
  "ownField (JObj fs) k = map_of fs k"
| "ownField v k = None"

definition hasNoTypeField :: "json \<Rightarrow> bool" where
  "hasNoTypeField data = (ownField data ''type'' = None)"

definition typeOutsideClosedSet :: "json \<Rightarrow> bool" where
  "typeOutsideClosedSet data = (ownField data ''type'' \<notin> set (map (Some \<circ> JStr) validTypes))"

definition collectionWithoutFeatures :: "json \<Rightarrow> bool" where
  "collectionWithoutFeatures data =
     (ownField data ''type'' = Some (JStr ''FeatureCollection'') \<and>
      (case ownField data ''features'' of Some (JArr xs) \<Rightarrow> False | _ \<Rightarrow> True))"

definition specRejects :: "json \<Rightarrow> bool" where
  "specRejects data =
     (notAnObject data \<or> hasNoTypeField data \<or> typeOutsideClosedSet data \<or>
      collectionWithoutFeatures data)"

section \<open>DataLoader: property standardization\<close>

text \<open>
  \<^verbatim>\<open>toLowerCase\<close> and \<^verbatim>\<open>trim\<close> on ASCII strings: the letters A to Z, and the white
  space characters tab, line feed, vertical tab, form feed, carriage return and space.
\<close>

definition toLowerChar :: "char \<Rightarrow> char" where
  "toLowerChar c =
     (case map_of (zip ''ABCDEFGHIJKLMNOPQRSTUVWXYZ'' ''abcdefghijklmnopqrstuvwxyz'') c of
        Some l \<Rightarrow> l | None \<Rightarrow> c)"

definition toLowerCase :: "string \<Rightarrow> string" where
  "toLowerCase s = map toLowerChar s"

definition isWhiteSpace :: "char \<Rightarrow> bool" where
  "isWhiteSpace c = (c \<in> set [CHR 0x09, CHR 0x0A, CHR 0x0B, CHR 0x0C, CHR 0x0D, CHR '' ''])"

definition trim :: "string \<Rightarrow> string" where
  "trim s = rev (dropWhile isWhiteSpace (rev (dropWhile isWhiteSpace s)))"

definition riskMappings :: "(string \<times> string) list" where
  "riskMappings =
     [(''low'', ''low''), (''minimal'', ''low''), (''green'', ''low''),
      (''moderate'', ''moderate''), (''medium'', ''moderate''), (''yellow'', ''moderate''),
      (''high'', ''high''), (''orange'', ''high''),
      (''very high'', ''very_high''), (''very_high'', ''very_high''),
      (''veryhigh'', ''very_high''),
      (''extreme'', ''extreme''), (''critical'', ''extreme''), (''red'', ''extreme'')]"

text \<open>
  \<^verbatim>\<open>riskMappings[lowercaseValue] || lowercaseValue\<close>: the table is an object literal, so
  the read goes through \<open>getProp\<close> and the prototype behind the table answers for a key
  the table does not hold.
\<close>

fun standardizeRiskLevel :: "json \<Rightarrow> json" where
  "standardizeRiskLevel (JStr v) =
     (let lowercaseValue = trim (toLowerCase v) in
      case getProp (JObj (map (\<lambda>(k, r). (k, JStr r)) riskMappings)) lowercaseValue of
        Some m \<Rightarrow> if truthy m then m else JStr lowercaseValue
      | None \<Rightarrow> JStr lowercaseValue)"
| "standardizeRiskLevel v = v"

definition propertyMappings :: "(string \<times> string) list" where
  "propertyMappings =
     [(''RISK_LEVEL'', ''risk_level''), (''riskLevel'', ''risk_level''),
      (''SEVERITY'', ''severity''), (''INTENSITY'', ''intensity''),
      (''TEMP'', ''temperature''), (''temperature_f'', ''temperature''),
      (''HUMIDITY'', ''humidity''), (''humidity_percent'', ''humidity''),
      (''WIND_SPEED'', ''wind_speed''), (''windSpeed'', ''wind_speed''),
      (''wind_mph'', ''wind_speed''),
      (''NAME'', ''name''), (''area_name'', ''name''), (''AREA_NAME'', ''name''),
      (''LAST_UPDATE'', ''last_update''), (''lastUpdate'', ''last_update''),
      (''FORECAST_TIME'', ''forecast_time''), (''forecastTime'', ''forecast_time'')]"

text \<open>
  The body of the \<^verbatim>\<open>forEach\<close> over \<^verbatim>\<open>Object.keys(propertyMappings)\<close>, for one
  entry of the table: an assignment keeps the position of a key the object has and appends
  a new one.
\<close>

definition applyMapping :: "string \<times> string \<Rightarrow> (string \<times> json) list \<Rightarrow> (string \<times> json) list" where
  "applyMapping m standardized =
     (case getProp (JObj standardized) (fst m) of
        None \<Rightarrow> standardized
      | Some v \<Rightarrow>
          (let assigned = AList.update (snd m) v standardized in
           if fst m \<noteq> snd m then AList.delete (fst m) assigned else assigned))"

text \<open>The loop itself: the entries in the order the table is written.\<close>

definition applyMappings :: "(string \<times> string) list \<Rightarrow> (string \<times> json) list \<Rightarrow> (string \<times> json) list" where
  "applyMappings table standardized = fold applyMapping table standardized"

definition standardizeValueAt :: "string \<Rightarrow> (string \<times> json) list \<Rightarrow> (string \<times> json) list" where
  "standardizeValueAt k standardized =
     (case getProp (JObj standardized) k of
        None \<Rightarrow> standardized
      | Some v \<Rightarrow>
          if truthy v then AList.update k (standardizeRiskLevel v) standardized
          else standardized)"

definition standardizeProperties :: "(string \<times> json) list \<Rightarrow> (string \<times> json) list" where
  "standardizeProperties properties =
     standardizeValueAt ''severity''
       (standardizeValueAt ''risk_level'' (applyMappings propertyMappings properties))"

section \<open>DataLoader: approximate area\<close>

text \<open>\<^verbatim>\<open>v[i]\<close> for an index \<open>i\<close>, and the conversion of an operand of \<^verbatim>\<open>*\<close> to a number.\<close>

fun jsIndex :: "json option \<Rightarrow> nat \<Rightarrow> error + json option" where
  "jsIndex None i = Inl TypeError"
| "jsIndex (Some JNull) i = Inl TypeError"
| "jsIndex (Some (JArr xs)) i = Inr (if i < length xs then Some (xs ! i) else None)"
| "jsIndex (Some v) i = Inl OutsideModel"

fun toNum :: "json option \<Rightarrow> error + rat" where
  "toNum (Some (JNum r)) = Inr r"
| "toNum v = Inl OutsideModel"

text \<open>\<^verbatim>\<open>coordinates[i][j]\<close> as an operand of a product.\<close>

definition coordAt :: "json list \<Rightarrow> nat \<Rightarrow> nat \<Rightarrow> error + rat" where
  "coordAt coordinates i j =
     andThen (jsIndex (Some (JArr coordinates)) i) (\<lambda>p. andThen (jsIndex p j) toNum)"

text \<open>
  The \<^verbatim>\<open>for\<close> loop of \<^verbatim>\<open>calculatePolygonArea\<close>, from index \<open>i\<close> with the running
  \<open>area\<close>.
\<close>

function areaLoop :: "json list \<Rightarrow> nat \<Rightarrow> rat \<Rightarrow> error + rat" where
  "areaLoop coordinates i area =
     (if int i < int (length coordinates) - 1 then
        andThen (coordAt coordinates i 0) (\<lambda>a.
        andThen (coordAt coordinates (i + 1) 1) (\<lambda>b.
        andThen (coordAt coordinates (i + 1) 0) (\<lambda>c.
        andThen (coordAt coordinates i 1) (\<lambda>d.
          areaLoop coordinates (i + 1) (area + a * b - c * d)))))
      else Inr area)"
  by pat_completeness auto
termination
  by (relation "measure (\<lambda>(coordinates, i, area). length coordinates - i)") auto

fun calculatePolygonArea :: "json option \<Rightarrow> error + rat" where
  "calculatePolygonArea None = Inl TypeError"
| "calculatePolygonArea (Some JNull) = Inl TypeError"
| "calculatePolygonArea (Some (JArr coordinates)) =
     (if length coordinates < 3 then Inr 0
      else andThen (areaLoop coordinates 0 0) (\<lambda>area. Inr (\<bar>area\<bar> / 2)))"
| "calculatePolygonArea (Some v) = Inl OutsideModel"

text \<open>The callback of the \<^verbatim>\<open>reduce\<close> adds \<open>outerRingArea polygon\<close> to the accumulator \<^verbatim>\<open>total\<close>.\<close>

definition outerRingArea :: "json \<Rightarrow> error + rat" where
  "outerRingArea polygon = andThen (jsIndex (Some polygon) 0) calculatePolygonArea"

fun reduceArea :: "json list \<Rightarrow> rat \<Rightarrow> error + rat" where
  "reduceArea [] acc = Inr acc"
| "reduceArea (polygon # rest) acc =
     andThen (outerRingArea polygon) (\<lambda>a. reduceArea rest (acc + a))"

text \<open>
  \<^verbatim>\<open>geometry.coordinates.reduce\<close> is a call: it throws unless \<^verbatim>\<open>coordinates\<close> is an
  array, since no other value of the model has a callable \<^verbatim>\<open>reduce\<close>.
\<close>

definition calculateApproximateArea :: "json \<Rightarrow> error + rat" where
  "calculateApproximateArea geometry =
     (if getProp geometry ''type'' = Some (JStr ''Polygon'') then
        andThen (jsIndex (getProp geometry ''coordinates'') 0) calculatePolygonArea
      else if getProp geometry ''type'' = Some (JStr ''MultiPolygon'') then
        (case getProp geometry ''coordinates'' of
           Some (JArr polygons) \<Rightarrow> reduceArea polygons 0
         | _ \<Rightarrow> Inl TypeError)
      else Inr 0)"

section \<open>DataLoader: features and documents\<close>

text \<open>
  \<open>now\<close> is what \<^verbatim>\<open>new Date().toISOString()\<close> returns during the call. The class body
  is strict code, so an assignment to a property of a number, a string or a boolean
  throws.
\<close>

fun ensureProperties :: "(string \<times> json) list \<Rightarrow> (string \<times> json) list" where
  "ensureProperties feature =
     (if \<not> truthyOpt (getProp (JObj feature) ''properties'')
      then AList.update ''properties'' (JObj []) feature else feature)"

fun stampProcessedAt :: "string \<Rightarrow> json option \<Rightarrow> error + (string \<times> json) list" where
  "stampProcessedAt now (Some (JObj properties)) =
     (if \<not> truthyOpt (getProp (JObj properties) ''processed_at'')
      then Inr (AList.update ''processed_at'' (JStr now) properties) else Inr properties)"
| "stampProcessedAt now (Some (JArr xs)) = Inl OutsideModel"
| "stampProcessedAt now (Some (JBuiltin b)) = Inl OutsideModel"
| "stampProcessedAt now v = Inl TypeError"

definition addCalculatedArea :: "json option \<Rightarrow> (string \<times> json) list \<Rightarrow> error + (string \<times> json) list" where
  "addCalculatedArea geometry properties =
     (case geometry of
        None \<Rightarrow> Inr properties
      | Some g \<Rightarrow>
          if truthy g \<and> arrayIncludes [''Polygon'', ''MultiPolygon''] (getProp g ''type'')
          then andThen (calculateApproximateArea g)
                 (\<lambda>a. Inr (AList.update ''calculated_area'' (JNum a) properties))
          else Inr properties)"

fun processFeature :: "string \<Rightarrow> json \<Rightarrow> error + json" where
  "processFeature now (JObj feature) =
     (let feature1 = ensureProperties feature in
      andThen (stampProcessedAt now (getProp (JObj feature1) ''properties'')) (\<lambda>stamped.
      andThen (addCalculatedArea (getProp (JObj feature1) ''geometry'')
                 (standardizeProperties stamped)) (\<lambda>properties.
        Inr (JObj (AList.update ''properties'' (JObj properties) feature1)))))"
| "processFeature now (JArr xs) = Inl OutsideModel"
| "processFeature now (JBuiltin b) = Inl OutsideModel"
| "processFeature now v = Inl TypeError"

text \<open>
  \<^verbatim>\<open>JSON.parse(JSON.stringify(data))\<close>. \<open>stringifyValue\<close> gives the value that is
  written for a member (\<open>None\<close>: the member is left out): a function is left out of an
  object and written as \<^verbatim>\<open>null\<close> in an array, and \<^verbatim>\<open>Object.prototype\<close> has no
  enumerable member.
\<close>

fun stringifyValue :: "json \<Rightarrow> json option" where
  "stringifyValue JNull = Some JNull"
| "stringifyValue (JBool b) = Some (JBool b)"
| "stringifyValue (JNum r) = Some (JNum r)"
| "stringifyValue (JStr s) = Some (JStr s)"
| "stringifyValue (JArr xs) =
     Some (JArr (map (\<lambda>x. case stringifyValue x of None \<Rightarrow> JNull | Some y \<Rightarrow> y) xs))"
| "stringifyValue (JObj fs) =
     Some (JObj (concat (map (\<lambda>(k, v). case stringifyValue v of None \<Rightarrow> [] | Some y \<Rightarrow> [(k, y)]) fs)))"
| "stringifyValue (JBuiltin ObjectPrototype) = Some (JObj [])"
| "stringifyValue (JBuiltin b) = None"

definition jsonClone :: "json \<Rightarrow> error + json" where
  "jsonClone data = (case stringifyValue data of None \<Rightarrow> Inl SyntaxError | Some v \<Rightarrow> Inr v)"

text \<open>
  \<^verbatim>\<open>features.map(processFeature)\<close>: the features in order, the \<open>i\<close>-th one reading the
  clock as \<open>clock i\<close>; the first exception ends the call.
\<close>

fun mapFeatures :: "(nat \<Rightarrow> string) \<Rightarrow> nat \<Rightarrow> json list \<Rightarrow> error + json list" where
  "mapFeatures clock i [] = Inr []"
| "mapFeatures clock i (feature # rest) =
     andThen (processFeature (clock i) feature) (\<lambda>f.
     andThen (mapFeatures clock (i + 1) rest) (\<lambda>fs. Inr (f # fs)))"

definition featureCollection :: "json list \<Rightarrow> json" where
  "featureCollection features =
     JObj [(''type'', JStr ''FeatureCollection''), (''features'', JArr features)]"

text \<open>
  \<^verbatim>\<open>processedData.features.map\<close> is a call as well: it throws unless \<^verbatim>\<open>features\<close> is
  an array.
\<close>

definition processCollection :: "(nat \<Rightarrow> string) \<Rightarrow> json \<Rightarrow> error + json" where
  "processCollection clock processedData =
     (case (processedData, getProp processedData ''features'') of
        (JObj fs, Some (JArr features)) \<Rightarrow>
          andThen (mapFeatures clock 0 features)
            (\<lambda>processed. Inr (JObj (AList.update ''features'' (JArr processed) fs)))
      | _ \<Rightarrow> Inl TypeError)"

text \<open>The TypeScript \<^verbatim>\<open>processGeoJSON\<close> (the second definition in the file).\<close>

definition processGeoJSON :: "(nat \<Rightarrow> string) \<Rightarrow> json \<Rightarrow> error + json" where
  "processGeoJSON clock data =
     andThen (jsonClone data) (\<lambda>processedData.
       if processedData = JNull then Inl TypeError
       else if getProp processedData ''type'' = Some (JStr ''FeatureCollection'')
         then processCollection clock processedData
       else if getProp processedData ''type'' = Some (JStr ''Feature'')
         then andThen (processFeature (clock 0) processedData)
                (\<lambda>processedFeature. Inr (featureCollection [processedFeature]))
       else Inr (featureCollection
                  [JObj [(''type'', JStr ''Feature''), (''geometry'', processedData),
                         (''properties'', JObj [])]]))"

text \<open>
  The JavaScript \<^verbatim>\<open>processGeoJSON\<close> (the first definition in the file): it returns the
  processed copy itself.
\<close>

definition processGeoJSON_js :: "(nat \<Rightarrow> string) \<Rightarrow> json \<Rightarrow> error + json" where
  "processGeoJSON_js clock data =
     andThen (jsonClone data) (\<lambda>processedData.
       if processedData = JNull then Inl TypeError
       else if getProp processedData ''type'' = Some (JStr ''FeatureCollection'')
         then processCollection clock processedData
       else if getProp processedData ''type'' = Some (JStr ''Feature'')
         then processFeature (clock 0) processedData
       else Inr processedData)"

section \<open>WildfireMap: representative coordinate\<close>

text \<open>\<^verbatim>\<open>const [x1, y1] = p\<close>, with both names used as numbers afterwards.\<close>

fun destructurePoint :: "json option \<Rightarrow> error + rat \<times> rat" where
  "destructurePoint None = Inl TypeError"
| "destructurePoint (Some JNull) = Inl TypeError"
| "destructurePoint (Some (JArr (JNum x # JNum y # rest))) = Inr (x, y)"
| "destructurePoint (Some v) = Inl OutsideModel"

text \<open>
  The \<^verbatim>\<open>for\<close> loop of \<^verbatim>\<open>getPolygonCentroid\<close>: \<open>len\<close> is \<^verbatim>\<open>coordinates.length - 1\<close>,
  an integer that is \<open>-1\<close> for the empty array.
\<close>

function centroidLoop :: "json list \<Rightarrow> nat \<Rightarrow> rat \<times> rat \<times> rat \<Rightarrow> error + rat \<times> rat \<times> rat" where
  "centroidLoop coordinates i (x, y, area) =
     (if int i < int (length coordinates) - 1 then
        andThen (andThen (jsIndex (Some (JArr coordinates)) i) destructurePoint) (\<lambda>(x1, y1).
        andThen (andThen (jsIndex (Some (JArr coordinates)) (i + 1)) destructurePoint) (\<lambda>(x2, y2).
          let cross = x1 * y2 - x2 * y1 in
          centroidLoop coordinates (i + 1)
            (x + (x1 + x2) * cross, y + (y1 + y2) * cross, area + cross)))
      else Inr (x, y, area))"
  by pat_completeness auto
termination
  by (relation "measure (\<lambda>(coordinates, i, acc). length coordinates - i)") auto

declare areaLoop.simps [simp del] centroidLoop.simps [simp del]

text \<open>The result array \<^verbatim>\<open>[a, b]\<close>; a member can be \<^verbatim>\<open>undefined\<close>.\<close>

fun getPolygonCentroid :: "json option \<Rightarrow> error + json option \<times> json option" where
  "getPolygonCentroid None = Inl TypeError"
| "getPolygonCentroid (Some JNull) = Inl TypeError"
| "getPolygonCentroid (Some (JArr coordinates)) =
     andThen (centroidLoop coordinates 0 (0, 0, 0)) (\<lambda>(x, y, area2).
       let area = area2 / 2 in
       if area = 0 then
         andThen (jsIndex (Some (JArr coordinates)) 0) (\<lambda>first.
         andThen (jsIndex first 0) (\<lambda>a.
         andThen (jsIndex first 1) (\<lambda>b. Inr (a, b))))
       else Inr (Some (JNum (x / (6 * area))), Some (JNum (y / (6 * area)))))"
| "getPolygonCentroid (Some v) = Inl OutsideModel"

text \<open>
  What \<^verbatim>\<open>getFeatureCoordinates\<close> returns: \<^verbatim>\<open>null\<close>, the \<^verbatim>\<open>coordinates\<close> of a point
  as they are, or the pair from \<^verbatim>\<open>getPolygonCentroid\<close>.
\<close>

datatype coords = NoCoords | PointCoords "json option" | Centroid "json option" "json option"

definition getFeatureCoordinates :: "json \<Rightarrow> error + coords" where
  "getFeatureCoordinates feature =
     (if feature = JNull then Inl TypeError
      else case getProp feature ''geometry'' of
        None \<Rightarrow> Inr NoCoords
      | Some geometry \<Rightarrow>
          if \<not> truthy geometry then Inr NoCoords
          else if getProp geometry ''type'' = Some (JStr ''Point'')
            then Inr (PointCoords (getProp geometry ''coordinates''))
          else if getProp geometry ''type'' = Some (JStr ''Polygon'')
            then andThen (andThen (jsIndex (getProp geometry ''coordinates'') 0) getPolygonCentroid)
                   (\<lambda>(a, b). Inr (Centroid a b))
          else if getProp geometry ''type'' = Some (JStr ''MultiPolygon'')
            then andThen
                   (andThen (andThen (jsIndex (getProp geometry ''coordinates'') 0)
                      (\<lambda>polygon. jsIndex polygon 0)) getPolygonCentroid)
                   (\<lambda>(a, b). Inr (Centroid a b))
          else Inr NoCoords)"

text \<open>
  For the statement of the tie-break rule: the source keys of a target \<open>t\<close> that a
  properties object holds, in the order of the table; and what the argument needs of a
  table (no source key twice, no source key that is also a target or a member of
  \<^verbatim>\<open>Object.prototype\<close>).
\<close>

definition presentSources :: "(string \<times> string) list \<Rightarrow> string \<Rightarrow> (string \<times> json) list \<Rightarrow> string list" where
  "presentSources table t properties =
     filter (\<lambda>k. map_of properties k \<noteq> None) (map fst (filter (\<lambda>m. snd m = t) table))"

definition renameTableOk :: "(string \<times> string) list \<Rightarrow> bool" where
  "renameTableOk table =
     (distinct (map fst table) \<and>
      list_all (\<lambda>m. fst m \<notin> set (map snd table) \<and> objectPrototypeLookup (fst m) = None) table)"

section \<open>The store\<close>

text \<open>
  For the effect of a call on the caller's objects the values live in a store: a list of
  cells, an address being an index. A cell is an object or an array, holding primitive
  values and references; allocation appends a cell, and nothing is ever freed.
\<close>

datatype hval = HNull | HBool bool | HNum rat | HStr string | HBuiltin builtin | HRef nat

datatype cell = ObjectCell "(string \<times> hval) list" | ArrayCell "hval list"

type_synonym heap = "cell list"

definition alloc :: "cell \<Rightarrow> heap \<Rightarrow> nat \<times> heap" where
  "alloc c h = (length h, h @ [c])"

fun cellAt :: "heap \<Rightarrow> hval \<Rightarrow> cell option" where
  "cellAt h (HRef a) = (if a < length h then Some (h ! a) else None)"
| "cellAt h v = None"

fun truthyH :: "hval \<Rightarrow> bool" where
  "truthyH HNull = False"
| "truthyH (HBool b) = b"
| "truthyH (HNum r) = (r \<noteq> 0)"
| "truthyH (HStr s) = (s \<noteq> [])"
| "truthyH (HBuiltin b) = True"
| "truthyH (HRef a) = True"

fun truthyOptH :: "hval option \<Rightarrow> bool" where
  "truthyOptH None = False"
| "truthyOptH (Some v) = truthyH v"

text \<open>A primitive value of the tree model as a stored value, and back.\<close>

fun toStored :: "json \<Rightarrow> hval option" where
  "toStored JNull = Some HNull"
| "toStored (JBool b) = Some (HBool b)"
| "toStored (JNum r) = Some (HNum r)"
| "toStored (JStr s) = Some (HStr s)"
| "toStored (JBuiltin b) = Some (HBuiltin b)"
| "toStored v = None"

text \<open>
  \<^verbatim>\<open>o[k]\<close> in the fields of an object, own keys first and the prototype after them;
  \<^verbatim>\<open>v.k\<close> on a stored value.
\<close>

definition fieldOf :: "(string \<times> hval) list \<Rightarrow> string \<Rightarrow> hval option" where
  "fieldOf fs k =
     (case map_of fs k of
        Some w \<Rightarrow> Some w
      | None \<Rightarrow> (case objectPrototypeLookup k of Some b \<Rightarrow> toStored b | None \<Rightarrow> None))"

definition getField :: "heap \<Rightarrow> hval \<Rightarrow> string \<Rightarrow> hval option" where
  "getField h v k = (case cellAt h v of Some (ObjectCell fs) \<Rightarrow> fieldOf fs k | _ \<Rightarrow> None)"

text \<open>\<^verbatim>\<open>o.k = w\<close> and for the object at address \<open>a\<close>: the one place where a cell changes.\<close>

definition setField :: "nat \<Rightarrow> string \<Rightarrow> hval \<Rightarrow> heap \<Rightarrow> heap" where
  "setField a k w h =
     (case cellAt h (HRef a) of
        Some (ObjectCell fs) \<Rightarrow> h[a := ObjectCell (AList.update k w fs)]
      | _ \<Rightarrow> h)"

text \<open>
  The tree a stored value stands for, read with \<open>n\<close> levels of nesting at most. With
  \<open>n\<close> the number of cells, \<open>None\<close> means that the value reaches itself:
  \<^verbatim>\<open>JSON.stringify\<close> throws on such a value.
\<close>

fun reify :: "nat \<Rightarrow> heap \<Rightarrow> hval \<Rightarrow> json option" where
  "reify n h HNull = Some JNull"
| "reify n h (HBool b) = Some (JBool b)"
| "reify n h (HNum r) = Some (JNum r)"
| "reify n h (HStr s) = Some (JStr s)"
| "reify n h (HBuiltin b) = Some (JBuiltin b)"
| "reify 0 h (HRef a) = None"
| "reify (Suc n) h (HRef a) =
     (case cellAt h (HRef a) of
        None \<Rightarrow> None
      | Some (ArrayCell vs) \<Rightarrow> map_option JArr (those (map (reify n h) vs))
      | Some (ObjectCell fs) \<Rightarrow>
          map_option JObj (those (map (\<lambda>(k, v). map_option (Pair k) (reify n h v)) fs)))"

definition treeOf :: "heap \<Rightarrow> hval \<Rightarrow> json option" where
  "treeOf h v = reify (length h) h v"

text \<open>\<^verbatim>\<open>JSON.parse\<close>: every object and array of the text becomes a new cell.\<close>

fun allocJson :: "json \<Rightarrow> heap \<Rightarrow> hval \<times> heap"
  and allocList :: "json list \<Rightarrow> heap \<Rightarrow> hval list \<times> heap"
  and allocFields :: "(string \<times> json) list \<Rightarrow> heap \<Rightarrow> (string \<times> hval) list \<times> heap" where
  "allocJson JNull h = (HNull, h)"
| "allocJson (JBool b) h = (HBool b, h)"
| "allocJson (JNum r) h = (HNum r, h)"
| "allocJson (JStr s) h = (HStr s, h)"
| "allocJson (JBuiltin b) h = (HBuiltin b, h)"
| "allocJson (JArr xs) h =
     (case allocList xs h of (vs, h1) \<Rightarrow>
        (case alloc (ArrayCell vs) h1 of (a, h2) \<Rightarrow> (HRef a, h2)))"
| "allocJson (JObj fs) h =
     (case allocFields fs h of (es, h1) \<Rightarrow>
        (case alloc (ObjectCell es) h1 of (a, h2) \<Rightarrow> (HRef a, h2)))"
| "allocList [] h = ([], h)"
| "allocList (x # xs) h =
     (case allocJson x h of (v, h1) \<Rightarrow>
        (case allocList xs h1 of (vs, h2) \<Rightarrow> (v # vs, h2)))"
| "allocFields [] h = ([], h)"
| "allocFields (f # fs) h =
     (case allocJson (snd f) h of (v, h1) \<Rightarrow>
        (case allocFields fs h1 of (es, h2) \<Rightarrow> ((fst f, v) # es, h2)))"

text \<open>
  A step of the program on the store: it ends with a value or an exception, and with a
  store either way.
\<close>

type_synonym 'a action = "heap \<Rightarrow> (error + 'a) \<times> heap"

definition returnH :: "'a \<Rightarrow> 'a action" where
  "returnH x h = (Inr x, h)"

definition throwH :: "error \<Rightarrow> 'a action" where
  "throwH e h = (Inl e, h)"

definition thenH :: "'a action \<Rightarrow> ('a \<Rightarrow> 'b action) \<Rightarrow> 'b action" where
  "thenH m f h = (case m h of (Inl e, h1) \<Rightarrow> (Inl e, h1) | (Inr x, h1) \<Rightarrow> f x h1)"

definition readH :: "(heap \<Rightarrow> 'a) \<Rightarrow> 'a action" where
  "readH f h = (Inr (f h), h)"

definition liftH :: "error + 'a \<Rightarrow> 'a action" where
  "liftH r h = (r, h)"

definition allocH :: "cell \<Rightarrow> nat action" where
  "allocH c h = (Inr (length h), h @ [c])"

definition setFieldH :: "nat \<Rightarrow> string \<Rightarrow> hval \<Rightarrow> unit action" where
  "setFieldH a k w h = (Inr (), setField a k w h)"

definition parseH :: "json \<Rightarrow> hval action" where
  "parseH t h = (case allocJson t h of (v, h1) \<Rightarrow> (Inr v, h1))"

section \<open>DataLoader on the store\<close>

text \<open>
  \<^verbatim>\<open>standardizeProperties\<close> on the fields of a stored object. The object it works on is
  its own shallow copy \<^verbatim>\<open>{ ...properties }\<close>, which no one else holds before it is
  returned: the function computes the fields of that copy, and the caller allocates it.
\<close>

fun standardizeRiskLevelH :: "hval \<Rightarrow> hval" where
  "standardizeRiskLevelH (HStr s) =
     (case toStored (standardizeRiskLevel (JStr s)) of Some w \<Rightarrow> w | None \<Rightarrow> HStr s)"
| "standardizeRiskLevelH v = v"

definition applyMappingH :: "string \<times> string \<Rightarrow> (string \<times> hval) list \<Rightarrow> (string \<times> hval) list" where
  "applyMappingH m standardized =
     (case fieldOf standardized (fst m) of
        None \<Rightarrow> standardized
      | Some v \<Rightarrow>
          (let assigned = AList.update (snd m) v standardized in
           if fst m \<noteq> snd m then AList.delete (fst m) assigned else assigned))"

definition standardizeValueAtH :: "string \<Rightarrow> (string \<times> hval) list \<Rightarrow> (string \<times> hval) list" where
  "standardizeValueAtH k standardized =
     (case fieldOf standardized k of
        None \<Rightarrow> standardized
      | Some v \<Rightarrow>
          if truthyH v then AList.update k (standardizeRiskLevelH v) standardized
          else standardized)"

definition standardizePropertiesH :: "(string \<times> hval) list \<Rightarrow> (string \<times> hval) list" where
  "standardizePropertiesH properties =
     standardizeValueAtH ''severity''
       (standardizeValueAtH ''risk_level'' (fold applyMappingH propertyMappings properties))"

text \<open>The steps of \<^verbatim>\<open>processFeature\<close> on the object at address \<open>a\<close>.\<close>

definition ensurePropertiesH :: "nat \<Rightarrow> unit action" where
  "ensurePropertiesH a =
     thenH (readH (\<lambda>h. getField h (HRef a) ''properties'')) (\<lambda>properties.
       if \<not> truthyOptH properties
       then thenH (allocH (ObjectCell [])) (\<lambda>p. setFieldH a ''properties'' (HRef p))
       else returnH ())"

definition stampProcessedAtH :: "string \<Rightarrow> nat \<Rightarrow> unit action" where
  "stampProcessedAtH now a =
     thenH (readH (\<lambda>h. getField h (HRef a) ''properties'')) (\<lambda>properties.
       case properties of
         Some (HRef p) \<Rightarrow>
           thenH (readH (\<lambda>h. cellAt h (HRef p))) (\<lambda>c.
             case c of
               Some (ObjectCell ps) \<Rightarrow>
                 if \<not> truthyOptH (fieldOf ps ''processed_at'')
                 then setFieldH p ''processed_at'' (HStr now) else returnH ()
             | _ \<Rightarrow> throwH OutsideModel)
       | Some (HBuiltin b) \<Rightarrow> throwH OutsideModel
       | _ \<Rightarrow> throwH TypeError)"

text \<open>\<^verbatim>\<open>feature.properties = this.standardizeProperties(feature.properties)\<close>\<close>

definition standardizeStored :: "nat \<Rightarrow> nat action" where
  "standardizeStored a =
     thenH (readH (\<lambda>h. getField h (HRef a) ''properties'')) (\<lambda>properties.
       case properties of
         Some (HRef p) \<Rightarrow>
           thenH (readH (\<lambda>h. cellAt h (HRef p))) (\<lambda>c.
             case c of
               Some (ObjectCell ps) \<Rightarrow>
                 thenH (allocH (ObjectCell (standardizePropertiesH ps))) (\<lambda>s.
                 thenH (setFieldH a ''properties'' (HRef s)) (\<lambda>u. returnH s))
             | _ \<Rightarrow> throwH OutsideModel)
       | _ \<Rightarrow> throwH OutsideModel)"

text \<open>
  The area is computed from the geometry as it stands in the store, by the function of the
  tree model, which only reads; \<open>s\<close> is the address of the standardized properties.
\<close>

definition addCalculatedAreaH :: "nat \<Rightarrow> nat \<Rightarrow> unit action" where
  "addCalculatedAreaH a s =
     thenH (readH (\<lambda>h. getField h (HRef a) ''geometry'')) (\<lambda>geometry.
       case geometry of
         None \<Rightarrow> returnH ()
       | Some g \<Rightarrow>
           thenH (readH (\<lambda>h. getField h g ''type'')) (\<lambda>t.
             if truthyH g \<and> t \<in> set [Some (HStr ''Polygon''), Some (HStr ''MultiPolygon'')]
             then thenH (readH (\<lambda>h. treeOf h g)) (\<lambda>tree.
                    case tree of
                      None \<Rightarrow> throwH OutsideModel
                    | Some geometryTree \<Rightarrow>
                        thenH (liftH (calculateApproximateArea geometryTree)) (\<lambda>area.
                          setFieldH s ''calculated_area'' (HNum area)))
             else returnH ()))"

fun processFeatureH :: "string \<Rightarrow> hval \<Rightarrow> hval action" where
  "processFeatureH now (HRef a) =
     thenH (readH (\<lambda>h. cellAt h (HRef a))) (\<lambda>c.
       case c of
         Some (ObjectCell fs) \<Rightarrow>
           thenH (ensurePropertiesH a) (\<lambda>u.
           thenH (stampProcessedAtH now a) (\<lambda>u.
           thenH (standardizeStored a) (\<lambda>s.
           thenH (addCalculatedAreaH a s) (\<lambda>u. returnH (HRef a)))))
       | _ \<Rightarrow> throwH OutsideModel)"
| "processFeatureH now (HBuiltin b) = throwH OutsideModel"
| "processFeatureH now v = throwH TypeError"

fun mapFeaturesH :: "(nat \<Rightarrow> string) \<Rightarrow> nat \<Rightarrow> hval list \<Rightarrow> hval list action" where
  "mapFeaturesH clock i [] = returnH []"
| "mapFeaturesH clock i (feature # rest) =
     thenH (processFeatureH (clock i) feature) (\<lambda>f.
     thenH (mapFeaturesH clock (i + 1) rest) (\<lambda>fs. returnH (f # fs)))"

text \<open>
  The array of features is read once: it is a cell of the copy, which the callback does not
  write.
\<close>

definition processCollectionH :: "(nat \<Rightarrow> string) \<Rightarrow> nat \<Rightarrow> hval action" where
  "processCollectionH clock a =
     thenH (readH (\<lambda>h. getField h (HRef a) ''features'')) (\<lambda>features.
       case features of
         Some (HRef fa) \<Rightarrow>
           thenH (readH (\<lambda>h. cellAt h (HRef fa))) (\<lambda>c.
             case c of
               Some (ArrayCell given) \<Rightarrow>
                 thenH (mapFeaturesH clock 0 given) (\<lambda>processed.
                 thenH (allocH (ArrayCell processed)) (\<lambda>na.
                 thenH (setFieldH a ''features'' (HRef na)) (\<lambda>u. returnH (HRef a))))
             | _ \<Rightarrow> throwH TypeError)
       | _ \<Rightarrow> throwH TypeError)"

definition wrapFeaturesH :: "hval list \<Rightarrow> hval action" where
  "wrapFeaturesH features =
     thenH (allocH (ArrayCell features)) (\<lambda>fa.
     thenH (allocH (ObjectCell [(''type'', HStr ''FeatureCollection''),
                               (''features'', HRef fa)])) (\<lambda>a. returnH (HRef a)))"

definition wrapGeometryH :: "hval \<Rightarrow> hval action" where
  "wrapGeometryH geometry =
     thenH (allocH (ObjectCell [])) (\<lambda>p.
     thenH (allocH (ObjectCell [(''type'', HStr ''Feature''), (''geometry'', geometry),
                               (''properties'', HRef p)])) (\<lambda>f. wrapFeaturesH [HRef f]))"

text \<open>
  The TypeScript \<^verbatim>\<open>processGeoJSON\<close> on the store: \<open>data\<close> is the caller's value.
  \<^verbatim>\<open>JSON.stringify\<close> reads the tree of \<open>data\<close> and throws when there is none;
  \<^verbatim>\<open>JSON.parse\<close> allocates the copy.
\<close>

definition processGeoJSONH :: "(nat \<Rightarrow> string) \<Rightarrow> hval \<Rightarrow> hval action" where
  "processGeoJSONH clock data =
     thenH (readH (\<lambda>h. treeOf h data)) (\<lambda>tree.
       case tree of
         None \<Rightarrow> throwH TypeError
       | Some dataTree \<Rightarrow>
           thenH (liftH (jsonClone dataTree)) (\<lambda>copy.
           thenH (parseH copy) (\<lambda>processedData.
             case processedData of
               HNull \<Rightarrow> throwH TypeError
             | HRef a \<Rightarrow>
                 thenH (readH (\<lambda>h. getField h processedData ''type'')) (\<lambda>t.
                   if t = Some (HStr ''FeatureCollection'') then processCollectionH clock a
                   else if t = Some (HStr ''Feature'')
                     then thenH (processFeatureH (clock 0) processedData)
                            (\<lambda>processedFeature. wrapFeaturesH [processedFeature])
                   else wrapGeometryH processedData)
             | v \<Rightarrow> wrapGeometryH v)))"

section \<open>Fresh values and closed stores\<close>

text \<open>
  The argument for the frame: relative to a mark \<open>n\<close> (the size of the store at the
  call), a value is fresh when it is no reference below the mark, and the store is closed
  from the mark when every cell from the mark on holds fresh values only. A step frames
  the mark when, from a closed store, it leaves the store closed and every cell below the
  mark as it was.
\<close>

fun freshVal :: "nat \<Rightarrow> hval \<Rightarrow> bool" where
  "freshVal n (HRef a) = (n \<le> a)"
| "freshVal n v = True"

fun freshCell :: "nat \<Rightarrow> cell \<Rightarrow> bool" where
  "freshCell n (ObjectCell fs) = list_all (\<lambda>e. freshVal n (snd e)) fs"
| "freshCell n (ArrayCell vs) = list_all (freshVal n) vs"

definition closedFrom :: "nat \<Rightarrow> heap \<Rightarrow> bool" where
  "closedFrom n h = (n \<le> length h \<and> (\<forall>a. n \<le> a \<and> a < length h \<longrightarrow> freshCell n (h ! a)))"

definition frames :: "nat \<Rightarrow> 'a action \<Rightarrow> ('a \<Rightarrow> bool) \<Rightarrow> bool" where
  "frames n m Q =
     (\<forall>h r h'. closedFrom n h \<and> m h = (r, h') \<longrightarrow>
        closedFrom n h' \<and> take n h' = take n h \<and> (\<forall>x. r = Inr x \<longrightarrow> Q x))"

text \<open>What is read from a fresh value in a closed store is fresh.\<close>

fun freshOpt :: "nat \<Rightarrow> hval option \<Rightarrow> bool" where
  "freshOpt n None = True"
| "freshOpt n (Some v) = freshVal n v"

text \<open>
  For the statements about rings of numbers: a point as the source holds it, and the sum
  of the cross products of consecutive points (the shoelace sum of a closed ring).
\<close>

definition pointJson :: "rat \<times> rat \<Rightarrow> json" where
  "pointJson p = JArr [JNum (fst p), JNum (snd p)]"

fun crossSum :: "(rat \<times> rat) list \<Rightarrow> rat" where
  "crossSum (p # q # rest) = fst p * snd q - fst q * snd p + crossSum (q # rest)"
| "crossSum ps = 0"

text \<open>The letters that \<^verbatim>\<open>toLowerCase\<close> replaces.\<close>

definition upperCaseLetters :: "char list" where
  "upperCaseLetters = ''ABCDEFGHIJKLMNOPQRSTUVWXYZ''"

text \<open>A clock for concrete runs: every reading is the same instant.\<close>

definition fixedClock :: "nat \<Rightarrow> string" where
  "fixedClock i = ''2025-01-01T00:00:00.000Z''"

section \<open>Validation: the contract\<close>

lemma objectPrototypeLookup_type [simp]: "objectPrototypeLookup ''type'' = None"
  by (simp add: objectPrototypeLookup_def)

lemma objectPrototypeLookup_features [simp]: "objectPrototypeLookup ''features'' = None"
  by (simp add: objectPrototypeLookup_def)

lemma isValidGeoJSON_object:
  "isValidGeoJSON (JObj fs) =
     (case map_of fs ''type'' of
        Some (JStr t) \<Rightarrow>
          t \<in> set validTypes \<and>
          (t = ''FeatureCollection'' \<longrightarrow> isArray (map_of fs ''features''))
      | _ \<Rightarrow> False)"
  by (auto simp: isValidGeoJSON_def validTypes_def split: option.splits json.splits)

lemma isValidGeoJSON_not_object: "notAnObject data \<Longrightarrow> \<not> isValidGeoJSON data"
  by (cases data rule: typeof.cases) (simp_all add: isValidGeoJSON_def)

text \<open>
  C7. \<^verbatim>\<open>isValidGeoJSON\<close> returns false exactly when the value is not an object, has no
  \<^verbatim>\<open>type\<close> field, has a \<^verbatim>\<open>type\<close> outside the nine GeoJSON type names, or is a
  \<^verbatim>\<open>FeatureCollection\<close> whose \<^verbatim>\<open>features\<close> is not an array; it returns true on
  every other value. Being a function of the value alone, its answer is deterministic.
\<close>

theorem isValidGeoJSON_contract:
  "isValidGeoJSON data = (\<not> specRejects data)"
proof (cases "notAnObject data")
  case True
  then show ?thesis
    by (simp add: isValidGeoJSON_not_object specRejects_def)
next
  case False
  then obtain fs where "data = JObj fs"
    by (cases data) simp_all
  then show ?thesis
    by (auto simp: isValidGeoJSON_object specRejects_def hasNoTypeField_def
        typeOutsideClosedSet_def collectionWithoutFeatures_def validTypes_def
        split: option.splits json.splits)
qed

theorem isValidGeoJSON_contract_witness:
  "isValidGeoJSON (JObj [(''type'', JStr ''FeatureCollection''), (''features'', JArr [])]) \<and>
   \<not> specRejects (JObj [(''type'', JStr ''FeatureCollection''), (''features'', JArr [])])"
  using isValidGeoJSON_contract
    [of "JObj [(''type'', JStr ''FeatureCollection''), (''features'', JArr [])]"]
  by (simp add: isValidGeoJSON_object validTypes_def)

section \<open>Sequencing\<close>

lemma andThen_Inr_iff:
  "andThen m f = Inr y \<longleftrightarrow> (\<exists>x. m = Inr x \<and> f x = Inr y)"
  by (cases m) (simp_all add: andThen_def)

lemma andThen_Inr [simp]: "andThen (Inr x) f = f x"
  by (simp add: andThen_def)

lemma andThen_Inl [simp]: "andThen (Inl e) f = Inl e"
  by (simp add: andThen_def)

section \<open>Evaluation on concrete values\<close>

lemma objectPrototypeLookup_names [simp]:
  "objectPrototypeLookup ''properties'' = None"
  "objectPrototypeLookup ''geometry'' = None"
  "objectPrototypeLookup ''coordinates'' = None"
  "objectPrototypeLookup ''processed_at'' = None"
  "objectPrototypeLookup ''calculated_area'' = None"
  "objectPrototypeLookup ''risk_level'' = None"
  "objectPrototypeLookup ''severity'' = None"
  by (simp_all add: objectPrototypeLookup_def)

lemmas standardize_defs =
  standardizeProperties_def applyMappings_def propertyMappings_def applyMapping_def
  standardizeValueAt_def objectPrototypeLookup_def riskMappings_def toLowerCase_def
  toLowerChar_def trim_def isWhiteSpace_def

section \<open>Centroid and area of a ring\<close>

text \<open>
  C8. On the square ring \<^verbatim>\<open>[[0,0],[2,0],[2,2],[0,2],[0,0]]\<close> the centroid computation
  returns the point (1, 1) and the area computation returns 4.
\<close>

theorem square_ring_centroid_and_area:
  "getPolygonCentroid
     (Some (JArr [JArr [JNum 0, JNum 0], JArr [JNum 2, JNum 0], JArr [JNum 2, JNum 2],
                  JArr [JNum 0, JNum 2], JArr [JNum 0, JNum 0]]))
     = Inr (Some (JNum 1), Some (JNum 1)) \<and>
   calculatePolygonArea
     (Some (JArr [JArr [JNum 0, JNum 0], JArr [JNum 2, JNum 0], JArr [JNum 2, JNum 2],
                  JArr [JNum 0, JNum 2], JArr [JNum 0, JNum 0]]))
     = Inr 4"
  by (simp add: centroidLoop.simps areaLoop.simps coordAt_def andThen_def)

text \<open>
  \<^verbatim>\<open>calculatePolygonArea\<close> has a guard for arrays of fewer than three members;
  \<^verbatim>\<open>getPolygonCentroid\<close> has none, and runs its loop once on a ring of two points.
\<close>

lemma calculatePolygonArea_short:
  "length coordinates < 3 \<Longrightarrow> calculatePolygonArea (Some (JArr coordinates)) = Inr 0"
  by simp

lemma getPolygonCentroid_two_points:
  "getPolygonCentroid
     (Some (JArr [JArr (JNum x1 # JNum y1 # r1), JArr (JNum x2 # JNum y2 # r2)])) =
   Inr (if x1 * y2 - x2 * y1 = 0 then (Some (JNum x1), Some (JNum y1))
        else (Some (JNum ((x1 + x2) / 3)), Some (JNum ((y1 + y2) / 3))))"
  by (simp add: centroidLoop.simps andThen_def Let_def field_simps)




lemma closed_two_point_ring:
  "getPolygonCentroid (Some (JArr [JArr (JNum x # JNum y # r1), JArr (JNum x # JNum y # r2)]))
     = Inr (Some (JNum x), Some (JNum y))"
  by (simp add: getPolygonCentroid_two_points del: getPolygonCentroid.simps)

text \<open>
  On a ring of at least three points, each a pair of numbers, \<^verbatim>\<open>calculatePolygonArea\<close>
  is half the absolute value of the shoelace sum.
\<close>

lemma coordAt_points:
  "i < length ps \<Longrightarrow> coordAt (map pointJson ps) i 0 = Inr (fst (ps ! i))"
  "i < length ps \<Longrightarrow> coordAt (map pointJson ps) i (Suc 0) = Inr (snd (ps ! i))"
  by (simp_all add: coordAt_def pointJson_def)

lemma crossSum_drop:
  assumes "Suc i < length ps"
  shows "crossSum (drop i ps) =
     fst (ps ! i) * snd (ps ! Suc i) - fst (ps ! Suc i) * snd (ps ! i) + crossSum (drop (Suc i) ps)"
proof -
  from assms have "drop i ps = ps ! i # ps ! Suc i # drop (Suc (Suc i)) ps"
    by (simp add: Cons_nth_drop_Suc Suc_lessD)
  moreover from assms have "drop (Suc i) ps = ps ! Suc i # drop (Suc (Suc i)) ps"
    by (simp add: Cons_nth_drop_Suc)
  ultimately show ?thesis
    by simp
qed

lemma crossSum_short: "length ps \<le> 1 \<Longrightarrow> crossSum ps = 0"
  by (cases ps rule: crossSum.cases) simp_all

lemma areaLoop_points:
  "areaLoop (map pointJson ps) i area = Inr (area + crossSum (drop i ps))"
proof (induction "length ps - i" arbitrary: i area)
  case 0
  then have "crossSum (drop i ps) = 0"
    by (simp add: crossSum_short)
  with 0 show ?case
    by (subst areaLoop.simps) simp
next
  case (Suc n)
  show ?case
  proof (cases "Suc i < length ps")
    case True
    from Suc.hyps(2) have "n = length ps - Suc i"
      by simp
    from Suc.hyps(1) [OF this] True show ?thesis
      by (subst areaLoop.simps) (simp add: coordAt_points crossSum_drop)
  next
    case False
    then have "crossSum (drop i ps) = 0"
      by (simp add: crossSum_short)
    with False show ?thesis
      by (subst areaLoop.simps) simp
  qed
qed

lemma calculatePolygonArea_points:
  "calculatePolygonArea (Some (JArr (map pointJson ps))) =
     Inr (if length ps < 3 then 0 else \<bar>crossSum ps\<bar> / 2)"
  by (simp add: areaLoop_points)

section \<open>Geometries that pass validation and have no first ring\<close>

lemma addCalculatedArea_empty_polygon:
  "addCalculatedArea
     (Some (JObj [(''type'', JStr ''Polygon''), (''coordinates'', JArr [])])) properties
     = Inl TypeError"
  by (simp add: addCalculatedArea_def calculateApproximateArea_def andThen_def)

lemma processFeature_empty_polygon:
  "processFeature now
     (JObj [(''type'', JStr ''Feature''),
            (''geometry'', JObj [(''type'', JStr ''Polygon''), (''coordinates'', JArr [])])])
     = Inl TypeError"
  by (simp add: addCalculatedArea_empty_polygon andThen_def)

text \<open>
  C3. A \<^verbatim>\<open>Feature\<close> whose geometry is a \<^verbatim>\<open>Polygon\<close> with an empty
  \<^verbatim>\<open>coordinates\<close> array passes \<^verbatim>\<open>isValidGeoJSON\<close>, and on it \<^verbatim>\<open>processGeoJSON\<close>
  (either copy) returns nothing: \<^verbatim>\<open>calculatePolygonArea\<close> is handed the absent first
  ring and throws a \<^verbatim>\<open>TypeError\<close>. \<^verbatim>\<open>getFeatureCoordinates\<close> throws on the same
  feature.
\<close>

theorem empty_polygon_throws:
  "isValidGeoJSON
     (JObj [(''type'', JStr ''Feature''),
            (''geometry'', JObj [(''type'', JStr ''Polygon''), (''coordinates'', JArr [])])]) \<and>
   processGeoJSON clock
     (JObj [(''type'', JStr ''Feature''),
            (''geometry'', JObj [(''type'', JStr ''Polygon''), (''coordinates'', JArr [])])])
     = Inl TypeError \<and>
   processGeoJSON_js clock
     (JObj [(''type'', JStr ''Feature''),
            (''geometry'', JObj [(''type'', JStr ''Polygon''), (''coordinates'', JArr [])])])
     = Inl TypeError \<and>
   getFeatureCoordinates
     (JObj [(''type'', JStr ''Feature''),
            (''geometry'', JObj [(''type'', JStr ''Polygon''), (''coordinates'', JArr [])])])
     = Inl TypeError"
  by (simp add: isValidGeoJSON_object validTypes_def processGeoJSON_def processGeoJSON_js_def
      jsonClone_def processFeature_empty_polygon getFeatureCoordinates_def andThen_def
      del: processFeature.simps)

theorem empty_polygon_throws_witness:
  "isValidGeoJSON
     (JObj [(''type'', JStr ''Feature''),
            (''geometry'', JObj [(''type'', JStr ''Polygon''), (''coordinates'', JArr [])])]) \<and>
   processGeoJSON fixedClock
     (JObj [(''type'', JStr ''Feature''),
            (''geometry'', JObj [(''type'', JStr ''Polygon''), (''coordinates'', JArr [])])])
     = Inl TypeError"
  using empty_polygon_throws [of fixedClock] by simp

text \<open>
  A \<^verbatim>\<open>MultiPolygon\<close> with an empty \<^verbatim>\<open>coordinates\<close> array is different: the
  \<^verbatim>\<open>reduce\<close> over no polygons returns 0, so normalization writes an area of 0, and it
  is \<^verbatim>\<open>getFeatureCoordinates\<close> that throws. A \<^verbatim>\<open>MultiPolygon\<close> holding a polygon
  with no ring makes the area computation throw.
\<close>

lemma empty_multipolygon_area:
  "calculateApproximateArea
     (JObj [(''type'', JStr ''MultiPolygon''), (''coordinates'', JArr [])]) = Inr 0"
  by (simp add: calculateApproximateArea_def)

lemma empty_multipolygon_centroid:
  "getFeatureCoordinates
     (JObj [(''type'', JStr ''Feature''),
            (''geometry'', JObj [(''type'', JStr ''MultiPolygon''), (''coordinates'', JArr [])])])
     = Inl TypeError"
  by (simp add: getFeatureCoordinates_def andThen_def)

lemma multipolygon_without_ring_area:
  "calculateApproximateArea
     (JObj [(''type'', JStr ''MultiPolygon''), (''coordinates'', JArr [JArr []])])
     = Inl TypeError"
  by (simp add: calculateApproximateArea_def outerRingArea_def andThen_def)

section \<open>Risk levels\<close>

lemma standardizeProperties_risk_level_red:
  "standardizeProperties [(''RISK_LEVEL'', JStr ''RED'')] = [(''risk_level'', JStr ''extreme'')]"
  by (simp add: standardize_defs)

lemma standardizeRiskLevel_not_textual:
  "(\<forall>s. v \<noteq> JStr s) \<Longrightarrow> standardizeRiskLevel v = v"
  by (cases v) simp_all

text \<open>
  On a string, the own keys of the table answer first and the members of
  \<^verbatim>\<open>Object.prototype\<close> after them. A lower-cased string can only name two of these,
  \<^verbatim>\<open>constructor\<close> and \<^verbatim>\<open>__proto__\<close>; every other string that the table does not
  hold passes through lower-cased and trimmed.
\<close>

lemma toLowerChar_not_upper: "toLowerChar c \<notin> set upperCaseLetters"
  by (simp add: toLowerChar_def upperCaseLetters_def)

lemma set_trim: "set (trim s) \<subseteq> set s"
  unfolding trim_def
  by (metis set_dropWhileD set_rev subsetI)

lemma lowered_no_upper:
  "c \<in> set upperCaseLetters \<Longrightarrow> c \<notin> set (trim (toLowerCase v))"
proof
  assume c: "c \<in> set upperCaseLetters" and "c \<in> set (trim (toLowerCase v))"
  with set_trim have "c \<in> set (toLowerCase v)"
    by blast
  then obtain d where "c = toLowerChar d"
    by (auto simp: toLowerCase_def)
  with c toLowerChar_not_upper show False
    by simp
qed

lemma lowered_neq:
  "c \<in> set upperCaseLetters \<Longrightarrow> c \<in> set name \<Longrightarrow> trim (toLowerCase v) \<noteq> name"
  using lowered_no_upper by blast

lemma objectPrototypeLookup_lowered:
  "objectPrototypeLookup (trim (toLowerCase v)) =
     (if trim (toLowerCase v) = ''constructor'' then Some (JBuiltin ObjectConstructor)
      else if trim (toLowerCase v) = ''__proto__'' then Some (JBuiltin ObjectPrototype)
      else None)"
proof -
  have "trim (toLowerCase v) \<noteq> ''hasOwnProperty''"
    "trim (toLowerCase v) \<noteq> ''isPrototypeOf''"
    "trim (toLowerCase v) \<noteq> ''propertyIsEnumerable''"
    "trim (toLowerCase v) \<noteq> ''toLocaleString''"
    "trim (toLowerCase v) \<noteq> ''toString''"
    "trim (toLowerCase v) \<noteq> ''valueOf''"
    "trim (toLowerCase v) \<noteq> ''__defineGetter__''"
    "trim (toLowerCase v) \<noteq> ''__defineSetter__''"
    "trim (toLowerCase v) \<noteq> ''__lookupGetter__''"
    "trim (toLowerCase v) \<noteq> ''__lookupSetter__''"
    by (rule lowered_neq [of "CHR ''O''"], simp add: upperCaseLetters_def, simp)
      (rule lowered_neq [of "CHR ''O''"], simp add: upperCaseLetters_def, simp,
       rule lowered_neq [of "CHR ''E''"], simp add: upperCaseLetters_def, simp,
       rule lowered_neq [of "CHR ''S''"], simp add: upperCaseLetters_def, simp,
       rule lowered_neq [of "CHR ''S''"], simp add: upperCaseLetters_def, simp,
       rule lowered_neq [of "CHR ''O''"], simp add: upperCaseLetters_def, simp,
       rule lowered_neq [of "CHR ''G''"], simp add: upperCaseLetters_def, simp,
       rule lowered_neq [of "CHR ''S''"], simp add: upperCaseLetters_def, simp,
       rule lowered_neq [of "CHR ''G''"], simp add: upperCaseLetters_def, simp,
       rule lowered_neq [of "CHR ''S''"], simp add: upperCaseLetters_def, simp)
  then show ?thesis
    unfolding objectPrototypeLookup_def by simp
qed

lemma map_of_map_JStr:
  "map_of (map (\<lambda>(k, r). (k, JStr r)) table) l = map_option JStr (map_of table l)"
  by (induction table) auto

lemmas map_of_riskMappings = map_of_map_JStr [of riskMappings]

lemma riskMappings_values: "map_of riskMappings l = Some r \<Longrightarrow> r \<noteq> []"
  by (auto simp: riskMappings_def split: if_splits)

lemma standardizeRiskLevel_textual:
  "standardizeRiskLevel (JStr v) =
     (case map_of riskMappings (trim (toLowerCase v)) of
        Some r \<Rightarrow> JStr r
      | None \<Rightarrow>
          if trim (toLowerCase v) = ''constructor'' then JBuiltin ObjectConstructor
          else if trim (toLowerCase v) = ''__proto__'' then JBuiltin ObjectPrototype
          else JStr (trim (toLowerCase v)))"
proof (cases "map_of riskMappings (trim (toLowerCase v))")
  case None
  then show ?thesis
    by (simp add: map_of_riskMappings objectPrototypeLookup_lowered)
next
  case (Some r)
  with riskMappings_values have "r \<noteq> []"
    by blast
  with Some show ?thesis
    by (simp add: map_of_riskMappings)
qed

text \<open>
  C6 fails on the code at the risk level \<^verbatim>\<open>"constructor"\<close>: the value is textual and
  not in the risk table, and the result is not the lower-cased string but the function
  \<^verbatim>\<open>Object\<close>, read from the prototype of the table.
\<close>

theorem risk_level_constructor:
  "standardizeProperties [(''risk_level'', JStr ''constructor'')]
     = [(''risk_level'', JBuiltin ObjectConstructor)]"
  by (simp add: standardize_defs)

section \<open>Area of a multi-polygon\<close>

lemma reduceArea_sum:
  "map outerRingArea polygons = map Inr areas \<Longrightarrow>
   reduceArea polygons acc = Inr (acc + sum_list areas)"
proof (induction polygons arbitrary: acc areas)
  case Nil
  then show ?case by simp
next
  case (Cons polygon rest)
  then obtain a as where areas: "areas = a # as" "outerRingArea polygon = Inr a"
    "map outerRingArea rest = map Inr as"
    by (cases areas) auto
  with Cons.IH [of as "acc + a"] show ?case
    by (simp add: add.assoc)
qed

lemma reduceArea_returns:
  "reduceArea polygons acc = Inr sum_areas \<Longrightarrow>
   \<exists>areas. map outerRingArea polygons = map Inr areas \<and> sum_areas = acc + sum_list areas"
proof (induction polygons arbitrary: acc)
  case Nil
  then show ?case by simp
next
  case (Cons polygon rest)
  from Cons.prems obtain a where a: "outerRingArea polygon = Inr a"
    and rest: "reduceArea rest (acc + a) = Inr sum_areas"
    by (auto simp: andThen_Inr_iff)
  from Cons.IH [OF rest] obtain as where
    "map outerRingArea rest = map Inr as" "sum_areas = acc + a + sum_list as"
    by blast
  with a have "map outerRingArea (polygon # rest) = map Inr (a # as) \<and>
      sum_areas = acc + sum_list (a # as)"
    by (simp add: add.assoc)
  then show ?case by blast
qed

lemma getProp_ensureProperties_geometry:
  "getProp (JObj (ensureProperties feature)) ''geometry'' = getProp (JObj feature) ''geometry''"
  by (simp add: update_conv')

lemma processFeature_returns:
  "processFeature now (JObj feature) = Inr processed \<longleftrightarrow>
     (\<exists>stamped properties.
        stampProcessedAt now (getProp (JObj (ensureProperties feature)) ''properties'')
          = Inr stamped \<and>
        addCalculatedArea (getProp (JObj feature) ''geometry'') (standardizeProperties stamped)
          = Inr properties \<and>
        processed = JObj (AList.update ''properties'' (JObj properties) (ensureProperties feature)))"
  unfolding processFeature.simps Let_def andThen_Inr_iff getProp_ensureProperties_geometry
  by auto

lemma addCalculatedArea_multipolygon:
  assumes "getProp geometry ''type'' = Some (JStr ''MultiPolygon'')"
    and "getProp geometry ''coordinates'' = Some (JArr polygons)"
  shows "addCalculatedArea (Some geometry) properties =
     andThen (reduceArea polygons 0)
       (\<lambda>a. Inr (AList.update ''calculated_area'' (JNum a) properties))"
proof -
  from assms(1) obtain g where "geometry = JObj g"
    by (cases geometry) simp_all
  with assms show ?thesis
    by (simp add: addCalculatedArea_def calculateApproximateArea_def)
qed



section \<open>Keys the rename table does not touch\<close>

lemma getProp_own:
  "objectPrototypeLookup k = None \<Longrightarrow> getProp (JObj fs) k = map_of fs k"
  by (simp split: option.splits)

lemma getProp_None_own: "getProp (JObj fs) k = None \<Longrightarrow> map_of fs k = None"
  by (simp split: option.splits)

lemma map_of_applyMapping_other:
  "k \<noteq> fst m \<Longrightarrow> k \<noteq> snd m \<Longrightarrow> map_of (applyMapping m ps) k = map_of ps k"
  by (simp add: applyMapping_def Let_def update_conv' delete_conv' split: option.splits)

lemma map_of_applyMappings_other:
  "k \<notin> fst ` set table \<Longrightarrow> k \<notin> snd ` set table \<Longrightarrow>
   map_of (applyMappings table ps) k = map_of ps k"
  unfolding applyMappings_def
  by (induction table arbitrary: ps) (auto simp: map_of_applyMapping_other simp del: getProp.simps)

lemma map_of_standardizeValueAt_other:
  "k \<noteq> t \<Longrightarrow> map_of (standardizeValueAt t ps) k = map_of ps k"
  by (simp add: standardizeValueAt_def update_conv' split: option.splits)

lemma standardizeProperties_processed_at:
  "map_of (standardizeProperties ps) ''processed_at'' = map_of ps ''processed_at''"
  by (simp add: standardizeProperties_def map_of_standardizeValueAt_other
      map_of_applyMappings_other propertyMappings_def)

lemma standardizeProperties_calculated_area:
  "map_of (standardizeProperties ps) ''calculated_area'' = map_of ps ''calculated_area''"
  by (simp add: standardizeProperties_def map_of_standardizeValueAt_other
      map_of_applyMappings_other propertyMappings_def)

section \<open>The processing timestamp\<close>

lemma stampProcessedAt_returns:
  "stampProcessedAt now x = Inr stamped \<Longrightarrow>
   \<exists>ps. x = Some (JObj ps) \<and>
     stamped = (if truthyOpt (map_of ps ''processed_at'') then ps
                else AList.update ''processed_at'' (JStr now) ps)"
  by (cases "(now, x)" rule: stampProcessedAt.cases) (auto split: option.splits)

lemma stampProcessedAt_object:
  "stampProcessedAt now (Some (JObj ps)) =
     Inr (if truthyOpt (map_of ps ''processed_at'') then ps
          else AList.update ''processed_at'' (JStr now) ps)"
  by (simp split: option.splits)

lemma stamped_processed_at:
  assumes "now \<noteq> []" and "stampProcessedAt now x = Inr stamped"
  shows "\<exists>v. map_of stamped ''processed_at'' = Some v \<and> truthy v"
proof -
  from stampProcessedAt_returns [OF assms(2)] obtain ps where
    stamped: "stamped = (if truthyOpt (map_of ps ''processed_at'') then ps
                else AList.update ''processed_at'' (JStr now) ps)"
    by blast
  show ?thesis
  proof (cases "truthyOpt (map_of ps ''processed_at'')")
    case True
    then show ?thesis
      unfolding stamped by (cases "map_of ps ''processed_at''") simp_all
  next
    case False
    with assms(1) show ?thesis
      unfolding stamped by (simp add: update_conv')
  qed
qed

lemma addCalculatedArea_other_properties:
  assumes "addCalculatedArea g ps = Inr p"
  shows "\<exists>p'. addCalculatedArea g ps' = Inr p' \<and>
           (\<forall>k. k \<noteq> ''calculated_area'' \<longrightarrow> map_of p' k = map_of ps' k)"
  using assms
  by (auto simp: addCalculatedArea_def andThen_Inr_iff update_conv'
      split: option.splits if_splits)

lemma addCalculatedArea_keeps:
  "addCalculatedArea g ps = Inr p \<Longrightarrow> k \<noteq> ''calculated_area'' \<Longrightarrow>
   map_of p k = map_of ps k"
  by (auto simp: addCalculatedArea_def andThen_Inr_iff update_conv'
      split: option.splits if_splits)

lemma processFeature_object:
  "processFeature now feature = Inr processed \<Longrightarrow> \<exists>fs. feature = JObj fs"
  by (cases "(now, feature)" rule: processFeature.cases) simp_all

lemma ensureProperties_updated:
  "ensureProperties (AList.update ''properties'' (JObj p) fs) =
     AList.update ''properties'' (JObj p) fs"
  by (simp add: update_conv')

lemma getProp_updated_properties:
  "getProp (JObj (AList.update ''properties'' (JObj p) fs)) ''properties'' = Some (JObj p)"
  by (simp add: update_conv')

lemma getProp_updated_geometry:
  "getProp (JObj (AList.update ''properties'' v (ensureProperties fs))) ''geometry'' =
     getProp (JObj fs) ''geometry''"
  by (simp add: update_conv')

text \<open>
  C4. When normalization of a feature has returned, normalizing its result again, at any
  later clock reading, returns as well and leaves \<^verbatim>\<open>processed_at\<close> as the first pass
  left it; and the first pass itself keeps a \<^verbatim>\<open>processed_at\<close> that the feature
  already had (a truthy one: the source tests \<^verbatim>\<open>!feature.properties.processed_at\<close>).
  The clock reading of the first pass is a non-empty string, as every ISO-8601 time is.
\<close>

theorem processed_at_preserved:
  assumes now: "now1 \<noteq> []"
    and once: "processFeature now1 feature = Inr once"
  shows "\<exists>twice p1 p2 v.
           processFeature now2 once = Inr twice \<and>
           getProp once ''properties'' = Some (JObj p1) \<and>
           getProp twice ''properties'' = Some (JObj p2) \<and>
           map_of p1 ''processed_at'' = Some v \<and> truthy v \<and>
           map_of p2 ''processed_at'' = Some v \<and>
           (\<forall>ps v0. getProp feature ''properties'' = Some (JObj ps) \<and>
              map_of ps ''processed_at'' = Some v0 \<and> truthy v0 \<longrightarrow> v = v0)"
proof -
  from processFeature_object [OF once] obtain fs where feature: "feature = JObj fs"
    by blast
  from once obtain stamped p1 where
    stamped: "stampProcessedAt now1 (getProp (JObj (ensureProperties fs)) ''properties'')
      = Inr stamped"
    and area: "addCalculatedArea (getProp (JObj fs) ''geometry'') (standardizeProperties stamped)
      = Inr p1"
    and once_eq: "once = JObj (AList.update ''properties'' (JObj p1) (ensureProperties fs))"
    unfolding feature processFeature_returns by blast
  from stamped_processed_at [OF now stamped] obtain v where
    v: "map_of stamped ''processed_at'' = Some v" "truthy v"
    by blast
  have p1: "map_of p1 ''processed_at'' = Some v"
    using addCalculatedArea_keeps [OF area, of "''processed_at''"] v(1)
    by (simp add: standardizeProperties_processed_at)
  let ?once = "AList.update ''properties'' (JObj p1) (ensureProperties fs)"
  have stamped2: "stampProcessedAt now2 (getProp (JObj (ensureProperties ?once)) ''properties'')
      = Inr p1"
    unfolding ensureProperties_updated getProp_updated_properties stampProcessedAt_object
    using p1 v(2) by simp
  from addCalculatedArea_other_properties [OF area, of "standardizeProperties p1"]
  obtain p2 where
    area2: "addCalculatedArea (getProp (JObj fs) ''geometry'') (standardizeProperties p1) = Inr p2"
    and keeps: "\<forall>k. k \<noteq> ''calculated_area'' \<longrightarrow> map_of p2 k = map_of (standardizeProperties p1) k"
    by blast
  have twice: "processFeature now2 once =
      Inr (JObj (AList.update ''properties'' (JObj p2) (ensureProperties ?once)))"
    unfolding once_eq processFeature_returns getProp_updated_geometry
    using stamped2 area2 by blast
  have "getProp once ''properties'' = Some (JObj p1)"
    unfolding once_eq by (rule getProp_updated_properties)
  moreover have "getProp (JObj (AList.update ''properties'' (JObj p2) (ensureProperties ?once)))
      ''properties'' = Some (JObj p2)"
    by (rule getProp_updated_properties)
  moreover have "map_of p2 ''processed_at'' = Some v"
    using keeps p1 by (simp add: standardizeProperties_processed_at)
  moreover have "\<forall>ps v0. getProp feature ''properties'' = Some (JObj ps) \<and>
      map_of ps ''processed_at'' = Some v0 \<and> truthy v0 \<longrightarrow> v = v0"
  proof (intro allI impI)
    fix ps v0
    assume given: "getProp feature ''properties'' = Some (JObj ps) \<and>
      map_of ps ''processed_at'' = Some v0 \<and> truthy v0"
    then have "getProp (JObj (ensureProperties fs)) ''properties'' = Some (JObj ps)"
      unfolding feature by simp
    with stamped given have "stamped = ps"
      by (simp add: stampProcessedAt_object)
    with v(1) given show "v = v0" by simp
  qed
  ultimately show ?thesis
    using twice p1 v(2) by blast
qed

theorem processed_at_preserved_witness:
  "\<exists>twice p2.
     processFeature ''2030-06-15T12:00:00.000Z''
       (JObj [(''type'', JStr ''Feature''),
              (''properties'', JObj [(''processed_at'', JStr (fixedClock 0))])])
       = Inr twice \<and>
     getProp twice ''properties'' = Some (JObj p2) \<and>
     map_of p2 ''processed_at'' = Some (JStr (fixedClock 0))"
proof -
  let ?feature = "JObj [(''type'', JStr ''Feature''), (''properties'', JObj [])]"
  let ?once = "JObj [(''type'', JStr ''Feature''),
                     (''properties'', JObj [(''processed_at'', JStr (fixedClock 0))])]"
  have now: "fixedClock 0 \<noteq> []"
    by (simp add: fixedClock_def)
  have "standardizeProperties [(''processed_at'', JStr (fixedClock 0))]
      = [(''processed_at'', JStr (fixedClock 0))]"
    by (simp add: standardize_defs)
  then have once: "processFeature (fixedClock 0) ?feature = Inr ?once"
    by (simp add: addCalculatedArea_def)
  from processed_at_preserved [OF now once, of "''2030-06-15T12:00:00.000Z''"]
  show ?thesis by auto
qed

text \<open>
  A \<^verbatim>\<open>processed_at\<close> that is present and falsy counts as absent: the source tests
  \<^verbatim>\<open>!feature.properties.processed_at\<close>.
\<close>

lemma falsy_processed_at_replaced:
  "processFeature now (JObj [(''properties'', JObj [(''processed_at'', JNull)])]) =
     Inr (JObj [(''properties'', JObj [(''processed_at'', JStr now)])])"
proof -
  have "applyMappings propertyMappings [(''processed_at'', JStr now)]
      = [(''processed_at'', JStr now)]"
    by (simp add: applyMappings_def propertyMappings_def applyMapping_def
        objectPrototypeLookup_def)
  then have "standardizeProperties [(''processed_at'', JStr now)] = [(''processed_at'', JStr now)]"
    by (simp add: standardizeProperties_def standardizeValueAt_def)
  then show ?thesis
    by (simp add: addCalculatedArea_def)
qed

section \<open>The rename table\<close>

lemma renameTableOk_Cons:
  "renameTableOk (m # table) \<Longrightarrow>
   renameTableOk table \<and> fst m \<noteq> snd m \<and> fst m \<notin> fst ` set table \<and>
   fst m \<notin> snd ` set table \<and> snd m \<notin> fst ` set table \<and>
   objectPrototypeLookup (fst m) = None"
  by (auto simp: renameTableOk_def list_all_iff)

lemma map_of_applyMapping:
  assumes "objectPrototypeLookup (fst m) = None" and "fst m \<noteq> snd m"
  shows "map_of (applyMapping m ps) =
     (if map_of ps (fst m) = None then map_of ps
      else (map_of ps)(snd m := map_of ps (fst m), fst m := None))"
  using assms
  by (auto simp: applyMapping_def Let_def update_conv' delete_conv' fun_eq_iff
      split: option.splits)

lemma presentSources_Cons:
  "presentSources (m # table) t ps =
     (if snd m = t \<and> map_of ps (fst m) \<noteq> None then [fst m] else []) @ presentSources table t ps"
  by (simp add: presentSources_def)

lemma presentSources_cong:
  assumes "\<And>k. k \<in> fst ` set table \<Longrightarrow> (map_of ps k = None) = (map_of ps' k = None)"
  shows "presentSources table t ps = presentSources table t ps'"
  unfolding presentSources_def
proof (rule filter_cong [OF refl])
  fix k
  assume "k \<in> set (map fst (filter (\<lambda>m. snd m = t) table))"
  then have "k \<in> fst ` set table"
    by auto
  then show "(map_of ps k \<noteq> None) = (map_of ps' k \<noteq> None)"
    using assms by simp
qed

lemma presentSources_subset: "set (presentSources table t ps) \<subseteq> fst ` set table"
  by (auto simp: presentSources_def)

lemma applyMappings_Cons:
  "applyMappings (m # table) ps = applyMappings table (applyMapping m ps)"
  by (simp add: applyMappings_def)

lemma applyMappings_table:
  assumes "renameTableOk table"
  shows "(\<forall>k. k \<in> fst ` set table \<longrightarrow> map_of (applyMappings table ps) k = None) \<and>
         (\<forall>t. t \<notin> fst ` set table \<longrightarrow>
            map_of (applyMappings table ps) t =
              (if presentSources table t ps = [] then map_of ps t
               else map_of ps (last (presentSources table t ps))))"
  using assms
proof (induction table arbitrary: ps)
  case Nil
  then show ?case
    by (simp add: applyMappings_def presentSources_def)
next
  case (Cons m table)
  from renameTableOk_Cons [OF Cons.prems] have ok: "renameTableOk table"
    and ne: "fst m \<noteq> snd m" and src: "fst m \<notin> fst ` set table"
    and src_tgt: "fst m \<notin> snd ` set table" and tgt: "snd m \<notin> fst ` set table"
    and proto: "objectPrototypeLookup (fst m) = None"
    by simp_all
  let ?ps1 = "applyMapping m ps"
  note m1 = map_of_applyMapping [OF proto ne, of ps]
  note IH = Cons.IH [OF ok, of ?ps1]
  have IHa: "map_of (applyMappings table ?ps1) k = None" if "k \<in> fst ` set table" for k
    using IH that by simp
  have IHb: "map_of (applyMappings table ?ps1) t =
        (if presentSources table t ?ps1 = [] then map_of ?ps1 t
         else map_of ?ps1 (last (presentSources table t ?ps1)))" if "t \<notin> fst ` set table" for t
    using IH that by simp
  have same: "map_of ?ps1 k = map_of ps k" if "k \<in> fst ` set table" for k
  proof -
    from that src tgt have "k \<noteq> fst m" "k \<noteq> snd m"
      by blast+
    then show ?thesis
      by (simp add: m1)
  qed
  have present: "presentSources table t ?ps1 = presentSources table t ps" for t
    by (rule presentSources_cong) (simp add: same)
  have last_same: "map_of ?ps1 (last (presentSources table t ps)) =
      map_of ps (last (presentSources table t ps))"
    if "presentSources table t ps \<noteq> []" for t
    using presentSources_subset [of table t ps] last_in_set [OF that] same by blast
  have "filter (\<lambda>e. snd e = fst m) table = []"
    using src_tgt by (force simp: filter_empty_conv)
  then have none_for_source: "presentSources table (fst m) ps = []"
    by (simp add: presentSources_def)
  show ?case
  proof (intro conjI allI impI)
    fix k
    assume "k \<in> fst ` set (m # table)"
    then consider "k = fst m" | "k \<in> fst ` set table"
      by auto
    then show "map_of (applyMappings (m # table) ps) k = None"
    proof cases
      case 1
      have "map_of (applyMappings table ?ps1) (fst m) = map_of ?ps1 (fst m)"
        using IHb [OF src] none_for_source present by simp
      also have "\<dots> = None"
        unfolding m1 by simp
      finally show ?thesis
        unfolding 1 applyMappings_Cons .
    next
      case 2
      then show ?thesis
        unfolding applyMappings_Cons by (rule IHa)
    qed
  next
    fix t
    assume "t \<notin> fst ` set (m # table)"
    then have t: "t \<noteq> fst m" "t \<notin> fst ` set table"
      by auto
    from IHb [OF t(2)] have step: "map_of (applyMappings (m # table) ps) t =
        (if presentSources table t ps = [] then map_of ?ps1 t
         else map_of ?ps1 (last (presentSources table t ps)))"
      unfolding applyMappings_Cons present by simp
    show "map_of (applyMappings (m # table) ps) t =
        (if presentSources (m # table) t ps = [] then map_of ps t
         else map_of ps (last (presentSources (m # table) t ps)))"
    proof (cases "presentSources table t ps = []")
      case True
      with step t(1) show ?thesis
        unfolding presentSources_Cons m1 by auto
    next
      case False
      with step last_same [OF False] show ?thesis
        unfolding presentSources_Cons by simp
    qed
  qed
qed

lemma renameTableOk_propertyMappings: "renameTableOk propertyMappings"
  by (simp add: renameTableOk_def propertyMappings_def objectPrototypeLookup_def)

lemma applyMappings_sources_removed:
  assumes "renameTableOk table" and "k \<in> fst ` set table"
  shows "map_of (applyMappings table ps) k = None"
  by (rule applyMappings_table [OF assms(1), of ps, THEN conjunct1, rule_format, OF assms(2)])

lemma applyMappings_value:
  assumes "renameTableOk table" and "t \<notin> fst ` set table"
  shows "map_of (applyMappings table ps) t =
     (if presentSources table t ps = [] then map_of ps t
      else map_of ps (last (presentSources table t ps)))"
  by (rule applyMappings_table [OF assms(1), of ps, THEN conjunct2, rule_format, OF assms(2)])

lemma presentSources_target:
  assumes "renameTableOk table" and "k \<in> set (presentSources table t ps)"
  shows "t \<notin> fst ` set table" and "map_of ps k \<noteq> None" and "(k, t) \<in> set table"
proof -
  from assms(2) show entry: "(k, t) \<in> set table" and "map_of ps k \<noteq> None"
    by (auto simp: presentSources_def)
  show "t \<notin> fst ` set table"
  proof
    assume "t \<in> fst ` set table"
    then obtain m where "m \<in> set table" "fst m = t"
      by auto
    with assms(1) entry show False
      by (force simp: renameTableOk_def list_all_iff)
  qed
qed

lemma distinct_presentSources:
  "distinct (map fst table) \<Longrightarrow> distinct (presentSources table t ps)"
  by (simp add: presentSources_def distinct_map_filter)

lemma presentSources_unique_target:
  assumes "distinct (map fst table)"
    and "k \<in> set (presentSources table t ps)" and "k \<in> set (presentSources table x ps)"
  shows "t = x"
proof -
  from assms(2,3) have "(k, t) \<in> set table" "(k, x) \<in> set table"
    by (auto simp: presentSources_def)
  with assms(1) show ?thesis
    by (meson eq_key_imp_eq_value)
qed

lemma distinct_applyMapping:
  "distinct (map fst ps) \<Longrightarrow> distinct (map fst (applyMapping m ps))"
  by (simp add: applyMapping_def Let_def distinct_update distinct_delete split: option.splits)

lemma distinct_applyMappings:
  "distinct (map fst ps) \<Longrightarrow> distinct (map fst (applyMappings table ps))"
  unfolding applyMappings_def
  by (induction table arbitrary: ps) (simp_all add: distinct_applyMapping)

lemma distinct_single_entry:
  "distinct (map fst al) \<Longrightarrow> map_of al k = Some v \<Longrightarrow> filter (\<lambda>e. fst e = k) al = [(k, v)]"
proof (induction al)
  case Nil
  then show ?case by simp
next
  case (Cons e al)
  show ?case
  proof (cases "fst e = k")
    case True
    with Cons.prems have "e = (k, v)" and "\<forall>x \<in> set al. fst x \<noteq> k"
      by (auto simp: rev_image_eqI)
    then show ?thesis
      by (simp add: filter_empty_conv)
  next
    case False
    with Cons show ?thesis by simp
  qed
qed

lemma applyMappings_earlier_value_lost:
  assumes ok: "renameTableOk table"
    and present: "presentSources table t ps = earlier @ [later]"
    and k: "k \<in> set earlier"
  shows "map_of (applyMappings table (AList.update k w ps)) = map_of (applyMappings table ps)"
proof
  fix x
  let ?ps' = "AList.update k w ps"
  from ok have dist: "distinct (map fst table)"
    by (simp add: renameTableOk_def)
  from k present have k_present: "k \<in> set (presentSources table t ps)"
    by simp
  from presentSources_target [OF ok k_present] have k_some: "map_of ps k \<noteq> None"
    and k_entry: "(k, t) \<in> set table"
    by simp_all
  have dom: "(map_of ?ps' y = None) = (map_of ps y = None)" for y
    using k_some by (simp add: update_conv')
  have sources: "presentSources table y ?ps' = presentSources table y ps" for y
    by (rule presentSources_cong) (simp add: dom)
  show "map_of (applyMappings table ?ps') x = map_of (applyMappings table ps) x"
  proof (cases "x \<in> fst ` set table")
    case True
    then show ?thesis
      by (simp add: applyMappings_sources_removed [OF ok])
  next
    case False
    have k_source: "k \<in> fst ` set table"
      using k_entry by force
    show ?thesis
    proof (cases "presentSources table x ps = []")
      case True
      with False k_source show ?thesis
        by (auto simp: applyMappings_value [OF ok False] sources update_conv')
    next
      case nonempty: False
      have "last (presentSources table x ps) \<noteq> k"
      proof
        assume last: "last (presentSources table x ps) = k"
        with nonempty have "k \<in> set (presentSources table x ps)"
          using last_in_set by metis
        from presentSources_unique_target [OF dist k_present this] have "x = t"
          by simp
        with last present have "later = k"
          by simp
        moreover from distinct_presentSources [OF dist, of t ps] present
        have "later \<notin> set earlier"
          by simp
        ultimately show False
          using k by simp
      qed
      with nonempty show ?thesis
        by (simp add: applyMappings_value [OF ok False] sources update_conv')
    qed
  qed
qed

lemma map_of_standardizeValueAt_same:
  "objectPrototypeLookup k = None \<Longrightarrow>
   map_of (standardizeValueAt k ps) k =
     (case map_of ps k of None \<Rightarrow> None
      | Some v \<Rightarrow> Some (if truthy v then standardizeRiskLevel v else v))"
  by (simp add: standardizeValueAt_def update_conv' split: option.splits)

lemma map_of_standardizeProperties:
  "map_of (standardizeProperties ps) t =
     (case map_of (applyMappings propertyMappings ps) t of None \<Rightarrow> None
      | Some v \<Rightarrow>
          Some (if (t = ''risk_level'' \<or> t = ''severity'') \<and> truthy v
                then standardizeRiskLevel v else v))"
proof -
  consider "t = ''risk_level''" | "t = ''severity''" | "t \<noteq> ''risk_level''" "t \<noteq> ''severity''"
    by blast
  then show ?thesis
  proof cases
    case 1
    then show ?thesis
      by (simp add: standardizeProperties_def map_of_standardizeValueAt_other
          map_of_standardizeValueAt_same split: option.splits)
  next
    case 2
    then show ?thesis
      by (simp add: standardizeProperties_def map_of_standardizeValueAt_other
          map_of_standardizeValueAt_same split: option.splits)
  next
    case 3
    then show ?thesis
      by (simp add: standardizeProperties_def map_of_standardizeValueAt_other
          split: option.splits)
  qed
qed

text \<open>
  C5. The rename loop goes through the table in its written order. When a properties
  object (with distinct keys) holds source keys of one target \<open>t\<close>, the last of them in
  table order being \<open>later\<close>, then after the loop the object has exactly one entry
  under \<open>t\<close>, with the value of \<open>later\<close>; no source key of \<open>t\<close> is left; and the
  values of the earlier source keys are lost, the result not depending on them. The value
  standardization that follows the loop in \<^verbatim>\<open>standardizeProperties\<close> is applied to
  the winning value when \<open>t\<close> is \<^verbatim>\<open>risk_level\<close> or \<^verbatim>\<open>severity\<close>.
\<close>

theorem later_mapping_wins:
  assumes keys: "distinct (map fst properties)"
    and present: "presentSources propertyMappings t properties = earlier @ [later]"
  shows "\<exists>v. map_of properties later = Some v \<and>
           filter (\<lambda>e. fst e = t) (applyMappings propertyMappings properties) = [(t, v)] \<and>
           (\<forall>k \<in> set (earlier @ [later]).
              map_of (applyMappings propertyMappings properties) k = None) \<and>
           (\<forall>k \<in> set earlier. \<forall>w.
              map_of (applyMappings propertyMappings (AList.update k w properties)) =
              map_of (applyMappings propertyMappings properties)) \<and>
           map_of (standardizeProperties properties) t =
             Some (if (t = ''risk_level'' \<or> t = ''severity'') \<and> truthy v
                   then standardizeRiskLevel v else v)"
proof -
  note ok = renameTableOk_propertyMappings
  have later: "later \<in> set (presentSources propertyMappings t properties)"
    using present by simp
  from presentSources_target [OF ok later] obtain v where
    target: "t \<notin> fst ` set propertyMappings" and v: "map_of properties later = Some v"
    by auto
  have winner: "map_of (applyMappings propertyMappings properties) t = Some v"
    using present v by (simp add: applyMappings_value [OF ok target])
  have one: "filter (\<lambda>e. fst e = t) (applyMappings propertyMappings properties) = [(t, v)]"
    by (rule distinct_single_entry [OF distinct_applyMappings [OF keys] winner])
  have removed: "\<forall>k \<in> set (earlier @ [later]).
      map_of (applyMappings propertyMappings properties) k = None"
  proof
    fix k
    assume "k \<in> set (earlier @ [later])"
    with present have "k \<in> set (presentSources propertyMappings t properties)"
      by simp
    with presentSources_subset have "k \<in> fst ` set propertyMappings"
      by blast
    then show "map_of (applyMappings propertyMappings properties) k = None"
      by (rule applyMappings_sources_removed [OF ok])
  qed
  have lost: "\<forall>k \<in> set earlier. \<forall>w.
      map_of (applyMappings propertyMappings (AList.update k w properties)) =
      map_of (applyMappings propertyMappings properties)"
    using applyMappings_earlier_value_lost [OF ok present] by blast
  have "map_of (standardizeProperties properties) t =
      Some (if (t = ''risk_level'' \<or> t = ''severity'') \<and> truthy v
            then standardizeRiskLevel v else v)"
    unfolding map_of_standardizeProperties winner by simp
  with v one removed lost show ?thesis
    by blast
qed

lemma standardizeRiskLevel_red: "standardizeRiskLevel (JStr ''RED'') = JStr ''extreme''"
  by (simp add: riskMappings_def toLowerCase_def toLowerChar_def trim_def isWhiteSpace_def)

text \<open>Both \<^verbatim>\<open>RISK_LEVEL\<close> and \<^verbatim>\<open>riskLevel\<close>: the second wins.\<close>

theorem later_mapping_wins_witness:
  "filter (\<lambda>e. fst e = ''risk_level'')
     (applyMappings propertyMappings
        [(''RISK_LEVEL'', JStr ''low''), (''riskLevel'', JStr ''RED'')])
     = [(''risk_level'', JStr ''RED'')] \<and>
   map_of (applyMappings propertyMappings
        [(''RISK_LEVEL'', JStr ''low''), (''riskLevel'', JStr ''RED'')]) ''RISK_LEVEL'' = None \<and>
   map_of (standardizeProperties
        [(''RISK_LEVEL'', JStr ''low''), (''riskLevel'', JStr ''RED'')]) ''risk_level''
     = Some (JStr ''extreme'')"
proof -
  let ?properties = "[(''RISK_LEVEL'', JStr ''low''), (''riskLevel'', JStr ''RED'')]"
  have keys: "distinct (map fst ?properties)"
    by simp
  have present: "presentSources propertyMappings ''risk_level'' ?properties
      = [''RISK_LEVEL''] @ [''riskLevel'']"
    by (simp add: presentSources_def propertyMappings_def)
  from later_mapping_wins [OF keys present] show ?thesis
    by (simp add: standardizeRiskLevel_red del: standardizeRiskLevel.simps)
qed

section \<open>The normalized document\<close>

lemma map_of_cloned:
  "map_of fs k = Some v \<Longrightarrow> stringifyValue v = Some w \<Longrightarrow>
   map_of (concat (map (\<lambda>(k, v). case stringifyValue v of None \<Rightarrow> [] | Some y \<Rightarrow> [(k, y)]) fs)) k
     = Some w"
  by (induction fs) (auto split: option.splits if_splits)

lemma jsonClone_object:
  "\<exists>copy. jsonClone (JObj fs) = Inr (JObj copy) \<and>
     (\<forall>k t. map_of fs k = Some (JStr t) \<longrightarrow> map_of copy k = Some (JStr t)) \<and>
     (\<forall>k xs. map_of fs k = Some (JArr xs) \<longrightarrow>
        (\<exists>ys. map_of copy k = Some (JArr ys) \<and> length ys = length xs))"
proof -
  let ?copy = "concat (map (\<lambda>(k, v). case stringifyValue v of None \<Rightarrow> [] | Some y \<Rightarrow> [(k, y)]) fs)"
  have "jsonClone (JObj fs) = Inr (JObj ?copy)"
    by (simp add: jsonClone_def)
  moreover have "map_of ?copy k = Some (JStr t)" if "map_of fs k = Some (JStr t)" for k t
    using map_of_cloned [OF that] by simp
  moreover have "\<exists>ys. map_of ?copy k = Some (JArr ys) \<and> length ys = length xs"
    if "map_of fs k = Some (JArr xs)" for k xs
    using map_of_cloned [OF that] by simp
  ultimately show ?thesis by blast
qed

lemma mapFeatures_length:
  "mapFeatures clock i features = Inr processed \<Longrightarrow> length processed = length features"
  by (induction features arbitrary: i processed) (auto simp: andThen_Inr_iff)

lemma isValidGeoJSON_cases:
  assumes "isValidGeoJSON data"
  obtains fs t where "data = JObj fs" "map_of fs ''type'' = Some (JStr t)" "t \<in> set validTypes"
    "t = ''FeatureCollection'' \<longrightarrow> (\<exists>xs. map_of fs ''features'' = Some (JArr xs))"
proof -
  from assms isValidGeoJSON_not_object obtain fs where data: "data = JObj fs"
    by (cases data) auto
  from assms obtain t where "map_of fs ''type'' = Some (JStr t)" "t \<in> set validTypes"
    "t = ''FeatureCollection'' \<longrightarrow> isArray (map_of fs ''features'')"
    unfolding data isValidGeoJSON_object by (auto split: option.splits json.splits)
  moreover have "\<exists>xs. x = Some (JArr xs)" if "isArray x" for x
    using that by (cases x rule: isArray.cases) simp_all
  ultimately show thesis
    using that data by blast
qed

lemma getProp_found: "map_of fs k = Some v \<Longrightarrow> getProp (JObj fs) k = Some v"
  by simp

lemma processCollection_returns:
  assumes "map_of copy ''features'' = Some (JArr given)"
  shows "processCollection clock (JObj copy) =
     andThen (mapFeatures clock 0 given)
       (\<lambda>processed. Inr (JObj (AList.update ''features'' (JArr processed) copy)))"
  using assms by (simp add: processCollection_def)




text \<open>
  The JavaScript \<^verbatim>\<open>processGeoJSON\<close> does not wrap: a bare geometry comes back as the
  copy of itself, a bare feature as the processed feature.
\<close>

lemma processGeoJSON_js_bare_geometry:
  "processGeoJSON_js clock
     (JObj [(''type'', JStr ''Point''), (''coordinates'', JArr [JNum 1, JNum 2])])
     = Inr (JObj [(''type'', JStr ''Point''), (''coordinates'', JArr [JNum 1, JNum 2])])"
  by (simp add: processGeoJSON_js_def jsonClone_def)

lemma processGeoJSON_js_bare_feature:
  "processGeoJSON_js fixedClock (JObj [(''type'', JStr ''Feature'')])
     = Inr (JObj [(''type'', JStr ''Feature''),
                  (''properties'', JObj [(''processed_at'', JStr (fixedClock 0))])])"
proof -
  have "standardizeProperties [(''processed_at'', JStr (fixedClock 0))]
      = [(''processed_at'', JStr (fixedClock 0))]"
    by (simp add: standardize_defs)
  then show ?thesis
    by (simp add: processGeoJSON_js_def jsonClone_def addCalculatedArea_def)
qed

section \<open>The caller's objects\<close>

lemma closedFrom_start: "closedFrom (length h) h"
  by (auto simp: closedFrom_def)

lemma closedFrom_nth:
  "closedFrom n h \<Longrightarrow> n \<le> a \<Longrightarrow> a < length h \<Longrightarrow> freshCell n (h ! a)"
  by (simp add: closedFrom_def)

lemma closedFrom_cellAt:
  "closedFrom n h \<Longrightarrow> n \<le> a \<Longrightarrow> cellAt h (HRef a) = Some c \<Longrightarrow> freshCell n c"
  by (auto simp: closedFrom_nth split: if_splits)

lemma closedFrom_append:
  "closedFrom n h \<Longrightarrow> freshCell n c \<Longrightarrow> closedFrom n (h @ [c])"
  by (auto simp: closedFrom_def nth_append)

lemma take_append_mark: "closedFrom n h \<Longrightarrow> take n (h @ cs) = take n h"
  by (simp add: closedFrom_def)

lemma list_all_update:
  "list_all P al \<Longrightarrow> P (k, w) \<Longrightarrow> list_all P (AList.update k w al)"
  by (induction al) auto

lemma list_all_delete: "list_all P al \<Longrightarrow> list_all P (AList.delete k al)"
  by (induction al) auto

lemma closedFrom_update:
  assumes "closedFrom n h" and "freshCell n c"
  shows "closedFrom n (h[a := c])"
proof -
  have "freshCell n (h[a := c] ! b)" if "n \<le> b" "b < length h" for b
    using that assms by (cases "b = a") (simp_all add: closedFrom_def)
  with assms(1) show ?thesis
    by (simp add: closedFrom_def)
qed

lemma closedFrom_setField:
  assumes "closedFrom n h" and "n \<le> a" and "freshVal n w"
  shows "closedFrom n (setField a k w h)" and "take n (setField a k w h) = take n h"
proof -
  show "take n (setField a k w h) = take n h"
    using assms(2) by (simp add: setField_def split: option.splits cell.splits)
  show "closedFrom n (setField a k w h)"
  proof (cases "cellAt h (HRef a)")
    case None
    with assms(1) show ?thesis
      by (simp add: setField_def)
  next
    case (Some c)
    then have a: "a < length h" and c: "c = h ! a"
      by (auto split: if_splits)
    from closedFrom_cellAt [OF assms(1,2) Some] have fresh: "freshCell n c" .
    show ?thesis
    proof (cases c)
      case (ObjectCell fs)
      with fresh assms(3) have "freshCell n (ObjectCell (AList.update k w fs))"
        by (simp add: list_all_update)
      from closedFrom_update [OF assms(1) this] Some ObjectCell show ?thesis
        by (simp add: setField_def)
    next
      case (ArrayCell vs)
      with Some assms(1) show ?thesis
        by (simp add: setField_def)
    qed
  qed
qed

lemma framesI:
  assumes "\<And>h r h'. closedFrom n h \<Longrightarrow> m h = (r, h') \<Longrightarrow>
    closedFrom n h' \<and> take n h' = take n h \<and> (\<forall>x. r = Inr x \<longrightarrow> Q x)"
  shows "frames n m Q"
  using assms unfolding frames_def by blast

lemma framesD:
  assumes "frames n m Q" and "closedFrom n h" and "m h = (r, h')"
  shows "closedFrom n h'" and "take n h' = take n h" and "r = Inr x \<Longrightarrow> Q x"
  using assms unfolding frames_def by blast+

lemma frames_return: "Q x \<Longrightarrow> frames n (returnH x) Q"
  by (rule framesI) (auto simp: returnH_def)

lemma frames_throw: "frames n (throwH e) Q"
  by (rule framesI) (auto simp: throwH_def)

lemma frames_lift: "(\<And>x. r = Inr x \<Longrightarrow> Q x) \<Longrightarrow> frames n (liftH r) Q"
  by (rule framesI) (auto simp: liftH_def)

lemma frames_read: "(\<And>h. closedFrom n h \<Longrightarrow> Q (f h)) \<Longrightarrow> frames n (readH f) Q"
  by (rule framesI) (auto simp: readH_def)

lemma frames_then:
  assumes m: "frames n m P" and f: "\<And>x. P x \<Longrightarrow> frames n (f x) Q"
  shows "frames n (thenH m f) Q"
proof (rule framesI)
  fix h r h'
  assume h: "closedFrom n h" and run: "thenH m f h = (r, h')"
  obtain r1 h1 where first: "m h = (r1, h1)"
    by (cases "m h")
  note m1 = framesD [OF m h first]
  show "closedFrom n h' \<and> take n h' = take n h \<and> (\<forall>x. r = Inr x \<longrightarrow> Q x)"
  proof (cases r1)
    case (Inl e)
    with run first m1 show ?thesis
      by (auto simp: thenH_def)
  next
    case (Inr x)
    with run first have second: "f x h1 = (r, h')"
      by (simp add: thenH_def)
    from m1(3) [OF Inr] have "P x" .
    from framesD [OF f [OF this] m1(1) second] m1(2) show ?thesis
      by simp
  qed
qed

lemma frames_weaken: "frames n m P \<Longrightarrow> (\<And>x. P x \<Longrightarrow> Q x) \<Longrightarrow> frames n m Q"
  unfolding frames_def by blast

lemma closedFrom_le: "closedFrom n h \<Longrightarrow> n \<le> length h"
  by (simp add: closedFrom_def)

lemma alloc_frame:
  assumes "closedFrom n h" and "freshCell n c"
  shows "closedFrom n (h @ [c])" and "take n (h @ [c]) = take n h" and "n \<le> length h"
  using assms by (simp_all add: closedFrom_append take_append_mark closedFrom_le)

lemma frames_alloc: "freshCell n c \<Longrightarrow> frames n (allocH c) (\<lambda>a. n \<le> a)"
  by (rule framesI) (auto simp: allocH_def alloc_frame)

lemma frames_setField:
  "n \<le> a \<Longrightarrow> freshVal n w \<Longrightarrow> frames n (setFieldH a k w) (\<lambda>u. True)"
  by (rule framesI) (auto simp: setFieldH_def closedFrom_setField)

lemma toStored_fresh: "freshOpt n (toStored b)"
  by (cases b) auto

lemma fieldOf_fresh:
  assumes "list_all (\<lambda>e. freshVal n (snd e)) fs"
  shows "freshOpt n (fieldOf fs k)"
proof (cases "map_of fs k")
  case None
  then show ?thesis
    by (auto simp: fieldOf_def toStored_fresh split: option.splits)
next
  case (Some w)
  then have "(k, w) \<in> set fs"
    by (rule map_of_SomeD)
  with assms have "freshVal n w"
    by (auto simp: list_all_iff)
  with Some show ?thesis
    by (simp add: fieldOf_def)
qed

lemma getField_fresh:
  assumes "closedFrom n h" and "freshVal n v"
  shows "freshOpt n (getField h v k)"
proof (cases "cellAt h v")
  case None
  then show ?thesis
    by (simp add: getField_def)
next
  case (Some c)
  then obtain a where v: "v = HRef a"
    by (cases v) simp_all
  with assms(2) have "n \<le> a"
    by simp
  from closedFrom_cellAt [OF assms(1) this] Some v have "freshCell n c"
    by simp
  with Some show ?thesis
    by (cases c) (simp_all add: getField_def fieldOf_fresh)
qed

lemma allocJson_frame:
  "closedFrom n h \<longrightarrow>
     closedFrom n (snd (allocJson t h)) \<and> take n (snd (allocJson t h)) = take n h \<and>
     freshVal n (fst (allocJson t h))"
  "closedFrom n h \<longrightarrow>
     closedFrom n (snd (allocList ts h)) \<and> take n (snd (allocList ts h)) = take n h \<and>
     list_all (freshVal n) (fst (allocList ts h))"
  "closedFrom n h \<longrightarrow>
     closedFrom n (snd (allocFields fs h)) \<and> take n (snd (allocFields fs h)) = take n h \<and>
     list_all (\<lambda>e. freshVal n (snd e)) (fst (allocFields fs h))"
proof (induction t h and ts h and fs h rule: allocJson_allocList_allocFields.induct)
  case (6 xs h)
  then show ?case
    by (auto simp: alloc_def alloc_frame intro: closedFrom_le split: prod.splits)
next
  case (7 fs h)
  then show ?case
    by (auto simp: alloc_def alloc_frame intro: closedFrom_le split: prod.splits)
next
  case (9 x xs h)
  then show ?case
    by (auto split: prod.splits)
next
  case (11 f fs h)
  then show ?case
    by (auto split: prod.splits)
qed simp_all

lemma frames_parse: "frames n (parseH t) (freshVal n)"
proof (rule framesI)
  fix h r h'
  assume "closedFrom n h" and "parseH t h = (r, h')"
  with allocJson_frame(1) [of n h t]
  show "closedFrom n h' \<and> take n h' = take n h \<and> (\<forall>x. r = Inr x \<longrightarrow> freshVal n x)"
    by (auto simp: parseH_def split: prod.splits)
qed

lemma freshOpt_Some: "freshOpt n x \<Longrightarrow> x = Some v \<Longrightarrow> freshVal n v"
  by simp

lemma standardizeRiskLevelH_fresh: "freshVal n v \<Longrightarrow> freshVal n (standardizeRiskLevelH v)"
proof (cases v)
  case (HStr s)
  from toStored_fresh [of n "standardizeRiskLevel (JStr s)"] show ?thesis
    unfolding HStr by (cases "toStored (standardizeRiskLevel (JStr s))") simp_all
qed simp_all

lemma applyMappingH_fresh:
  assumes "list_all (\<lambda>e. freshVal n (snd e)) ps"
  shows "list_all (\<lambda>e. freshVal n (snd e)) (applyMappingH m ps)"
proof (cases "fieldOf ps (fst m)")
  case None
  with assms show ?thesis
    by (simp add: applyMappingH_def)
next
  case (Some v)
  from freshOpt_Some [OF fieldOf_fresh [OF assms] Some] have "freshVal n v" .
  with assms Some show ?thesis
    by (simp add: applyMappingH_def Let_def list_all_update list_all_delete)
qed

lemma fold_applyMappingH_fresh:
  "list_all (\<lambda>e. freshVal n (snd e)) ps \<Longrightarrow>
   list_all (\<lambda>e. freshVal n (snd e)) (fold applyMappingH table ps)"
  by (induction table arbitrary: ps) (simp_all add: applyMappingH_fresh)

lemma standardizeValueAtH_fresh:
  assumes "list_all (\<lambda>e. freshVal n (snd e)) ps"
  shows "list_all (\<lambda>e. freshVal n (snd e)) (standardizeValueAtH k ps)"
proof (cases "fieldOf ps k")
  case None
  with assms show ?thesis
    by (simp add: standardizeValueAtH_def)
next
  case (Some v)
  from freshOpt_Some [OF fieldOf_fresh [OF assms] Some] have "freshVal n v" .
  with assms Some show ?thesis
    by (simp add: standardizeValueAtH_def list_all_update standardizeRiskLevelH_fresh)
qed

lemma standardizePropertiesH_fresh:
  "list_all (\<lambda>e. freshVal n (snd e)) ps \<Longrightarrow>
   list_all (\<lambda>e. freshVal n (snd e)) (standardizePropertiesH ps)"
  by (simp add: standardizePropertiesH_def standardizeValueAtH_fresh fold_applyMappingH_fresh)

lemma frames_getField:
  "freshVal n v \<Longrightarrow> frames n (readH (\<lambda>h. getField h v k)) (freshOpt n)"
  by (rule frames_read) (rule getField_fresh)

lemma frames_cellAt:
  "n \<le> a \<Longrightarrow>
   frames n (readH (\<lambda>h. cellAt h (HRef a))) (\<lambda>c. \<forall>x. c = Some x \<longrightarrow> freshCell n x)"
  by (rule frames_read) (auto dest: closedFrom_cellAt)

lemma frames_ensureProperties:
  assumes "n \<le> a"
  shows "frames n (ensurePropertiesH a) (\<lambda>u. True)"
  unfolding ensurePropertiesH_def
proof (rule frames_then [OF frames_getField])
  show "freshVal n (HRef a)"
    using assms by simp
next
  fix properties
  show "frames n
     (if \<not> truthyOptH properties
      then thenH (allocH (ObjectCell [])) (\<lambda>p. setFieldH a ''properties'' (HRef p))
      else returnH ()) (\<lambda>u. True)"
  proof (cases "truthyOptH properties")
    case True
    then show ?thesis
      by (simp add: frames_return)
  next
    case False
    have "frames n (thenH (allocH (ObjectCell [])) (\<lambda>p. setFieldH a ''properties'' (HRef p)))
        (\<lambda>u. True)"
      by (rule frames_then [OF frames_alloc]) (simp_all add: frames_setField assms)
    with False show ?thesis
      by simp
  qed
qed

lemma frames_stampProcessedAt:
  assumes "n \<le> a"
  shows "frames n (stampProcessedAtH now a) (\<lambda>u. True)"
  unfolding stampProcessedAtH_def
proof (rule frames_then [OF frames_getField])
  show "freshVal n (HRef a)"
    using assms by simp
next
  fix properties
  assume fresh: "freshOpt n properties"
  show "frames n
     (case properties of
        Some (HRef p) \<Rightarrow>
          thenH (readH (\<lambda>h. cellAt h (HRef p))) (\<lambda>c.
            case c of
              Some (ObjectCell ps) \<Rightarrow>
                if \<not> truthyOptH (fieldOf ps ''processed_at'')
                then setFieldH p ''processed_at'' (HStr now) else returnH ()
            | _ \<Rightarrow> throwH OutsideModel)
      | Some (HBuiltin b) \<Rightarrow> throwH OutsideModel
      | _ \<Rightarrow> throwH TypeError) (\<lambda>u. True)"
  proof (cases properties)
    case None
    then show ?thesis
      by (simp add: frames_throw)
  next
    case (Some v)
    show ?thesis
    proof (cases v)
      case (HRef p)
      with Some fresh have p: "n \<le> p"
        by simp
      have "frames n
         (thenH (readH (\<lambda>h. cellAt h (HRef p))) (\<lambda>c.
            case c of
              Some (ObjectCell ps) \<Rightarrow>
                if \<not> truthyOptH (fieldOf ps ''processed_at'')
                then setFieldH p ''processed_at'' (HStr now) else returnH ()
            | _ \<Rightarrow> throwH OutsideModel)) (\<lambda>u. True)"
        by (rule frames_then [OF frames_cellAt [OF p]])
          (auto simp: frames_throw frames_return frames_setField p
            split: option.splits cell.splits)
      with Some HRef show ?thesis
        by simp
    qed (simp_all add: Some frames_throw)
  qed
qed

lemma frames_standardizeStored:
  assumes "n \<le> a"
  shows "frames n (standardizeStored a) (\<lambda>s. n \<le> s)"
  unfolding standardizeStored_def
proof (rule frames_then [OF frames_getField])
  show "freshVal n (HRef a)"
    using assms by simp
next
  fix properties
  assume fresh: "freshOpt n properties"
  show "frames n
     (case properties of
        Some (HRef p) \<Rightarrow>
          thenH (readH (\<lambda>h. cellAt h (HRef p))) (\<lambda>c.
            case c of
              Some (ObjectCell ps) \<Rightarrow>
                thenH (allocH (ObjectCell (standardizePropertiesH ps))) (\<lambda>s.
                thenH (setFieldH a ''properties'' (HRef s)) (\<lambda>u. returnH s))
            | _ \<Rightarrow> throwH OutsideModel)
      | _ \<Rightarrow> throwH OutsideModel) (\<lambda>s. n \<le> s)"
  proof (cases properties)
    case None
    then show ?thesis
      by (simp add: frames_throw)
  next
    case (Some v)
    show ?thesis
    proof (cases v)
      case (HRef p)
      with Some fresh have p: "n \<le> p"
        by simp
      have step: "frames n
         (case c of
            Some (ObjectCell ps) \<Rightarrow>
              thenH (allocH (ObjectCell (standardizePropertiesH ps))) (\<lambda>s.
              thenH (setFieldH a ''properties'' (HRef s)) (\<lambda>u. returnH s))
          | _ \<Rightarrow> throwH OutsideModel) (\<lambda>s. n \<le> s)"
        if c: "\<forall>x. c = Some x \<longrightarrow> freshCell n x" for c
      proof (cases c)
        case None
        then show ?thesis
          by (simp add: frames_throw)
      next
        case (Some x)
        show ?thesis
        proof (cases x)
          case (ObjectCell ps)
          with c Some have "freshCell n (ObjectCell (standardizePropertiesH ps))"
            by (simp add: standardizePropertiesH_fresh)
          then have "frames n
             (thenH (allocH (ObjectCell (standardizePropertiesH ps))) (\<lambda>s.
              thenH (setFieldH a ''properties'' (HRef s)) (\<lambda>u. returnH s))) (\<lambda>s. n \<le> s)"
            by (rule frames_then [OF frames_alloc])
              (rule frames_then [OF frames_setField], simp_all add: assms frames_return)
          with Some ObjectCell show ?thesis
            by simp
        next
          case (ArrayCell vs)
          with Some show ?thesis
            by (simp add: frames_throw)
        qed
      qed
      have "frames n
         (thenH (readH (\<lambda>h. cellAt h (HRef p))) (\<lambda>c.
            case c of
              Some (ObjectCell ps) \<Rightarrow>
                thenH (allocH (ObjectCell (standardizePropertiesH ps))) (\<lambda>s.
                thenH (setFieldH a ''properties'' (HRef s)) (\<lambda>u. returnH s))
            | _ \<Rightarrow> throwH OutsideModel)) (\<lambda>s. n \<le> s)"
        by (rule frames_then [OF frames_cellAt [OF p]]) (rule step)
      with Some HRef show ?thesis
        by simp
    qed (simp_all add: Some frames_throw)
  qed
qed

lemma frames_addCalculatedArea:
  assumes "n \<le> s"
  shows "frames n (addCalculatedAreaH a s) (\<lambda>u. True)"
  unfolding addCalculatedAreaH_def
proof (rule frames_then [OF frames_read [where Q = "\<lambda>x. True"]])
  fix geometry
  show "frames n
     (case geometry of
        None \<Rightarrow> returnH ()
      | Some g \<Rightarrow>
          thenH (readH (\<lambda>h. getField h g ''type'')) (\<lambda>t.
            if truthyH g \<and> t \<in> set [Some (HStr ''Polygon''), Some (HStr ''MultiPolygon'')]
            then thenH (readH (\<lambda>h. treeOf h g)) (\<lambda>tree.
                   case tree of
                     None \<Rightarrow> throwH OutsideModel
                   | Some geometryTree \<Rightarrow>
                       thenH (liftH (calculateApproximateArea geometryTree)) (\<lambda>area.
                         setFieldH s ''calculated_area'' (HNum area)))
            else returnH ())) (\<lambda>u. True)"
  proof (cases geometry)
    case None
    then show ?thesis
      by (simp add: frames_return)
  next
    case (Some g)
    have area_step: "frames n
       (case tree of
          None \<Rightarrow> throwH OutsideModel
        | Some geometryTree \<Rightarrow>
            thenH (liftH (calculateApproximateArea geometryTree)) (\<lambda>area.
              setFieldH s ''calculated_area'' (HNum area))) (\<lambda>u. True)" for tree
    proof (cases tree)
      case None
      then show ?thesis
        by (simp add: frames_throw)
    next
      case (Some geometryTree)
      have "frames n
         (thenH (liftH (calculateApproximateArea geometryTree)) (\<lambda>area.
            setFieldH s ''calculated_area'' (HNum area))) (\<lambda>u. True)"
        by (rule frames_then [OF frames_lift [where Q = "\<lambda>x. True"]])
          (simp_all add: frames_setField assms)
      with Some show ?thesis
        by simp
    qed
    have "frames n
       (thenH (readH (\<lambda>h. getField h g ''type'')) (\<lambda>t.
          if truthyH g \<and> t \<in> set [Some (HStr ''Polygon''), Some (HStr ''MultiPolygon'')]
          then thenH (readH (\<lambda>h. treeOf h g)) (\<lambda>tree.
                 case tree of
                   None \<Rightarrow> throwH OutsideModel
                 | Some geometryTree \<Rightarrow>
                     thenH (liftH (calculateApproximateArea geometryTree)) (\<lambda>area.
                       setFieldH s ''calculated_area'' (HNum area)))
          else returnH ())) (\<lambda>u. True)"
    proof (rule frames_then [OF frames_read [where Q = "\<lambda>x. True"]])
      fix t
      show "frames n
         (if truthyH g \<and> t \<in> set [Some (HStr ''Polygon''), Some (HStr ''MultiPolygon'')]
          then thenH (readH (\<lambda>h. treeOf h g)) (\<lambda>tree.
                 case tree of
                   None \<Rightarrow> throwH OutsideModel
                 | Some geometryTree \<Rightarrow>
                     thenH (liftH (calculateApproximateArea geometryTree)) (\<lambda>area.
                       setFieldH s ''calculated_area'' (HNum area)))
          else returnH ()) (\<lambda>u. True)"
      proof (cases "truthyH g \<and> t \<in> set [Some (HStr ''Polygon''), Some (HStr ''MultiPolygon'')]")
        case True
        have "frames n
           (thenH (readH (\<lambda>h. treeOf h g)) (\<lambda>tree.
              case tree of
                None \<Rightarrow> throwH OutsideModel
              | Some geometryTree \<Rightarrow>
                  thenH (liftH (calculateApproximateArea geometryTree)) (\<lambda>area.
                    setFieldH s ''calculated_area'' (HNum area)))) (\<lambda>u. True)"
          by (rule frames_then [OF frames_read [where Q = "\<lambda>x. True"]]) (simp, rule area_step)
        with True show ?thesis
          by simp
      next
        case False
        then show ?thesis
          by (auto simp: frames_return)
      qed
    qed simp
    with Some show ?thesis
      by simp
  qed
qed simp

lemma frames_processFeature:
  assumes "freshVal n v"
  shows "frames n (processFeatureH now v) (freshVal n)"
proof (cases v)
  case (HRef a)
  with assms have a: "n \<le> a"
    by simp
  have steps: "frames n
     (thenH (ensurePropertiesH a) (\<lambda>u.
      thenH (stampProcessedAtH now a) (\<lambda>u.
      thenH (standardizeStored a) (\<lambda>s.
      thenH (addCalculatedAreaH a s) (\<lambda>u. returnH (HRef a)))))) (freshVal n)"
    by (rule frames_then [OF frames_ensureProperties [OF a]],
        rule frames_then [OF frames_stampProcessedAt [OF a]],
        rule frames_then [OF frames_standardizeStored [OF a]],
        rule frames_then [OF frames_addCalculatedArea])
      (simp_all add: frames_return a)
  have "frames n
     (thenH (readH (\<lambda>h. cellAt h (HRef a))) (\<lambda>c.
        case c of
          Some (ObjectCell fs) \<Rightarrow>
            thenH (ensurePropertiesH a) (\<lambda>u.
            thenH (stampProcessedAtH now a) (\<lambda>u.
            thenH (standardizeStored a) (\<lambda>s.
            thenH (addCalculatedAreaH a s) (\<lambda>u. returnH (HRef a)))))
        | _ \<Rightarrow> throwH OutsideModel)) (freshVal n)"
    by (rule frames_then [OF frames_read [where Q = "\<lambda>x. True"]])
      (auto simp: steps frames_throw split: option.splits cell.splits)
  with HRef show ?thesis
    by simp
qed (simp_all add: frames_throw)

lemma frames_mapFeatures:
  "list_all (freshVal n) features \<Longrightarrow>
   frames n (mapFeaturesH clock i features) (list_all (freshVal n))"
proof (induction features arbitrary: i)
  case Nil
  then show ?case
    by (simp add: frames_return)
next
  case (Cons feature rest)
  then have feature: "freshVal n feature" and rest: "list_all (freshVal n) rest"
    by simp_all
  show ?case
    unfolding mapFeaturesH.simps
    by (rule frames_then [OF frames_processFeature [OF feature]],
        rule frames_then [OF Cons.IH [OF rest]])
      (simp add: frames_return)
qed

lemma frames_processCollection:
  assumes "n \<le> a"
  shows "frames n (processCollectionH clock a) (freshVal n)"
  unfolding processCollectionH_def
proof (rule frames_then [OF frames_getField])
  show "freshVal n (HRef a)"
    using assms by simp
next
  fix features
  assume fresh: "freshOpt n features"
  have found: "frames n
     (thenH (readH (\<lambda>h. cellAt h (HRef fa))) (\<lambda>c.
        case c of
          Some (ArrayCell given) \<Rightarrow>
            thenH (mapFeaturesH clock 0 given) (\<lambda>processed.
            thenH (allocH (ArrayCell processed)) (\<lambda>na.
            thenH (setFieldH a ''features'' (HRef na)) (\<lambda>u. returnH (HRef a))))
        | _ \<Rightarrow> throwH TypeError)) (freshVal n)"
    if fa: "n \<le> fa" for fa
  proof (rule frames_then [OF frames_cellAt [OF fa]])
    fix c
    assume c: "\<forall>x. c = Some x \<longrightarrow> freshCell n x"
    show "frames n
       (case c of
          Some (ArrayCell given) \<Rightarrow>
            thenH (mapFeaturesH clock 0 given) (\<lambda>processed.
            thenH (allocH (ArrayCell processed)) (\<lambda>na.
            thenH (setFieldH a ''features'' (HRef na)) (\<lambda>u. returnH (HRef a))))
        | _ \<Rightarrow> throwH TypeError) (freshVal n)"
    proof (cases c)
      case None
      then show ?thesis
        by (simp add: frames_throw)
    next
      case (Some x)
      show ?thesis
      proof (cases x)
        case (ObjectCell fs)
        with Some show ?thesis
          by (simp add: frames_throw)
      next
        case (ArrayCell given)
        with c Some have given: "list_all (freshVal n) given"
          by simp
        have "frames n
           (thenH (mapFeaturesH clock 0 given) (\<lambda>processed.
            thenH (allocH (ArrayCell processed)) (\<lambda>na.
            thenH (setFieldH a ''features'' (HRef na)) (\<lambda>u. returnH (HRef a)))))
           (freshVal n)"
        proof (rule frames_then [OF frames_mapFeatures [OF given]])
          fix processed
          assume "list_all (freshVal n) processed"
          then have "freshCell n (ArrayCell processed)"
            by simp
          then show "frames n
             (thenH (allocH (ArrayCell processed)) (\<lambda>na.
              thenH (setFieldH a ''features'' (HRef na)) (\<lambda>u. returnH (HRef a))))
             (freshVal n)"
            by (rule frames_then [OF frames_alloc])
              (rule frames_then [OF frames_setField], simp_all add: assms frames_return)
        qed
        with Some ArrayCell show ?thesis
          by simp
      qed
    qed
  qed
  show "frames n
     (case features of
        Some (HRef fa) \<Rightarrow>
          thenH (readH (\<lambda>h. cellAt h (HRef fa))) (\<lambda>c.
            case c of
              Some (ArrayCell given) \<Rightarrow>
                thenH (mapFeaturesH clock 0 given) (\<lambda>processed.
                thenH (allocH (ArrayCell processed)) (\<lambda>na.
                thenH (setFieldH a ''features'' (HRef na)) (\<lambda>u. returnH (HRef a))))
            | _ \<Rightarrow> throwH TypeError)
      | _ \<Rightarrow> throwH TypeError) (freshVal n)"
  proof (cases features)
    case None
    then show ?thesis
      by (simp add: frames_throw)
  next
    case (Some v)
    show ?thesis
    proof (cases v)
      case (HRef fa)
      with Some fresh have "n \<le> fa"
        by simp
      from found [OF this] Some HRef show ?thesis
        by simp
    qed (simp_all add: Some frames_throw)
  qed
qed

lemma frames_wrapFeatures:
  assumes "list_all (freshVal n) features"
  shows "frames n (wrapFeaturesH features) (freshVal n)"
  unfolding wrapFeaturesH_def
  by (rule frames_then [OF frames_alloc], simp add: assms,
      rule frames_then [OF frames_alloc])
    (simp_all add: frames_return)

lemma frames_wrapGeometry:
  assumes "freshVal n geometry"
  shows "frames n (wrapGeometryH geometry) (freshVal n)"
  unfolding wrapGeometryH_def
  by (rule frames_then [OF frames_alloc], simp,
      rule frames_then [OF frames_alloc])
    (simp_all add: assms frames_wrapFeatures)

lemma frames_processGeoJSON: "frames n (processGeoJSONH clock data) (freshVal n)"
  unfolding processGeoJSONH_def
proof (rule frames_then [OF frames_read [where Q = "\<lambda>x. True"]])
  fix tree
  have copied: "frames n
     (case processedData of
        HNull \<Rightarrow> throwH TypeError
      | HRef a \<Rightarrow>
          thenH (readH (\<lambda>h. getField h processedData ''type'')) (\<lambda>t.
            if t = Some (HStr ''FeatureCollection'') then processCollectionH clock a
            else if t = Some (HStr ''Feature'')
              then thenH (processFeatureH (clock 0) processedData)
                     (\<lambda>processedFeature. wrapFeaturesH [processedFeature])
            else wrapGeometryH processedData)
      | v \<Rightarrow> wrapGeometryH v) (freshVal n)"
    if fresh: "freshVal n processedData" for processedData
  proof (cases processedData)
    case (HRef a)
    with fresh have a: "n \<le> a"
      by simp
    have feature: "frames n
       (thenH (processFeatureH (clock 0) (HRef a))
          (\<lambda>processedFeature. wrapFeaturesH [processedFeature])) (freshVal n)"
      by (rule frames_then [OF frames_processFeature]) (simp_all add: a frames_wrapFeatures)
    have "frames n
       (thenH (readH (\<lambda>h. getField h (HRef a) ''type'')) (\<lambda>t.
          if t = Some (HStr ''FeatureCollection'') then processCollectionH clock a
          else if t = Some (HStr ''Feature'')
            then thenH (processFeatureH (clock 0) (HRef a))
                   (\<lambda>processedFeature. wrapFeaturesH [processedFeature])
          else wrapGeometryH (HRef a))) (freshVal n)"
      by (rule frames_then [OF frames_read [where Q = "\<lambda>x. True"]])
        (simp_all add: frames_processCollection [OF a] feature frames_wrapGeometry a
          del: processFeatureH.simps)
    then show ?thesis
      unfolding HRef by simp
  qed (simp_all add: frames_throw frames_wrapGeometry)
  show "frames n
     (case tree of
        None \<Rightarrow> throwH TypeError
      | Some dataTree \<Rightarrow>
          thenH (liftH (jsonClone dataTree)) (\<lambda>copy.
          thenH (parseH copy) (\<lambda>processedData.
            case processedData of
              HNull \<Rightarrow> throwH TypeError
            | HRef a \<Rightarrow>
                thenH (readH (\<lambda>h. getField h processedData ''type'')) (\<lambda>t.
                  if t = Some (HStr ''FeatureCollection'') then processCollectionH clock a
                  else if t = Some (HStr ''Feature'')
                    then thenH (processFeatureH (clock 0) processedData)
                           (\<lambda>processedFeature. wrapFeaturesH [processedFeature])
                  else wrapGeometryH processedData)
            | v \<Rightarrow> wrapGeometryH v))) (freshVal n)"
  proof (cases tree)
    case None
    then show ?thesis
      by (simp add: frames_throw)
  next
    case (Some dataTree)
    have "frames n
       (thenH (liftH (jsonClone dataTree)) (\<lambda>copy.
        thenH (parseH copy) (\<lambda>processedData.
          case processedData of
            HNull \<Rightarrow> throwH TypeError
          | HRef a \<Rightarrow>
              thenH (readH (\<lambda>h. getField h processedData ''type'')) (\<lambda>t.
                if t = Some (HStr ''FeatureCollection'') then processCollectionH clock a
                else if t = Some (HStr ''Feature'')
                  then thenH (processFeatureH (clock 0) processedData)
                         (\<lambda>processedFeature. wrapFeaturesH [processedFeature])
                else wrapGeometryH processedData)
          | v \<Rightarrow> wrapGeometryH v))) (freshVal n)"
      by (rule frames_then [OF frames_lift [where Q = "\<lambda>x. True"]], simp,
          rule frames_then [OF frames_parse])
        (rule copied)
    with Some show ?thesis
      by simp
  qed
qed simp

lemma processGeoJSONH_prefix:
  "take (length h) (snd (processGeoJSONH clock data h)) = h"
proof -
  obtain r h' where run: "processGeoJSONH clock data h = (r, h')"
    by (cases "processGeoJSONH clock data h")
  from framesD(2) [OF frames_processGeoJSON closedFrom_start run] run show ?thesis
    by simp
qed

lemma those_map_cong:
  "those (map f xs) = Some ys \<Longrightarrow>
   (\<And>x y. x \<in> set xs \<Longrightarrow> f x = Some y \<Longrightarrow> g x = Some y) \<Longrightarrow>
   those (map g xs) = Some ys"
proof (induction xs arbitrary: ys)
  case Nil
  then show ?case by simp
next
  case (Cons x xs)
  from Cons.prems(1) obtain y zs where y: "f x = Some y" and zs: "those (map f xs) = Some zs"
    and ys: "ys = y # zs"
    by (auto split: option.splits)
  from Cons.prems(2) [OF _ y] have "g x = Some y"
    by simp
  moreover from Cons.IH [OF zs] Cons.prems(2) have "those (map g xs) = Some zs"
    by simp
  ultimately show ?case
    using ys by simp
qed

lemma prefix_length:
  assumes "take (length h) h' = h"
  shows "length h \<le> length h'"
proof -
  have "length (take (length h) h') = length h"
    using assms by simp
  then show ?thesis
    by simp
qed

lemma prefix_nth:
  assumes "take (length h) h' = h" and "a < length h"
  shows "a < length h'" and "h' ! a = h ! a"
proof -
  from assms(1) have "length h \<le> length h'"
    by (rule prefix_length)
  with assms(2) show "a < length h'"
    by simp
  from assms show "h' ! a = h ! a"
    by (metis nth_take)
qed

lemma reify_extend:
  "reify k h v = Some t \<Longrightarrow> take (length h) h' = h \<Longrightarrow> k \<le> k' \<Longrightarrow>
   reify k' h' v = Some t"
proof (induction k arbitrary: v t k')
  case 0
  then show ?case
    by (cases v) simp_all
next
  case (Suc k)
  show ?case
  proof (cases v)
    case (HRef a)
    from Suc.prems(3) obtain j where k': "k' = Suc j" and j: "k \<le> j"
      by (cases k') simp_all
    from Suc.prems(1) HRef obtain c where c: "cellAt h (HRef a) = Some c"
      by (cases "cellAt h (HRef a)") simp_all
    then have a: "a < length h" and c_eq: "c = h ! a"
      by (auto split: if_splits)
    from prefix_nth [OF Suc.prems(2) a] c_eq have c': "cellAt h' (HRef a) = Some c"
      by simp
    show ?thesis
    proof (cases c)
      case (ObjectCell fs)
      with Suc.prems(1) HRef c obtain js where
        js: "those (map (\<lambda>(k', v). map_option (Pair k') (reify k h v)) fs) = Some js"
        and t: "t = JObj js"
        by auto
      have "those (map (\<lambda>(k', v). map_option (Pair k') (reify j h' v)) fs) = Some js"
      proof (rule those_map_cong [OF js])
        fix x y
        assume "(case x of (k', v) \<Rightarrow> map_option (Pair k') (reify k h v)) = Some y"
        then show "(case x of (k', v) \<Rightarrow> map_option (Pair k') (reify j h' v)) = Some y"
          using Suc.IH [OF _ Suc.prems(2) j] by (cases x) auto
      qed
      with HRef k' c' ObjectCell t show ?thesis
        by simp
    next
      case (ArrayCell vs)
      with Suc.prems(1) HRef c obtain js where
        js: "those (map (reify k h) vs) = Some js" and t: "t = JArr js"
        by auto
      have "those (map (reify j h') vs) = Some js"
        by (rule those_map_cong [OF js]) (rule Suc.IH [OF _ Suc.prems(2) j])
      with HRef k' c' ArrayCell t show ?thesis
        by simp
    qed
  qed (use Suc.prems(1) in simp_all)
qed

lemma treeOf_extend:
  assumes "take (length h) h' = h"
  shows "treeOf h' v = treeOf h v \<or> treeOf h v = None"
proof (cases "treeOf h v")
  case None
  then show ?thesis by simp
next
  case (Some t)
  from assms have "length h \<le> length h'"
    by (rule prefix_length)
  from reify_extend [OF _ assms this] Some show ?thesis
    by (simp add: treeOf_def)
qed

lemma processGeoJSONH_no_tree:
  "treeOf h data = None \<Longrightarrow> processGeoJSONH clock data h = (Inl TypeError, h)"
  by (simp add: processGeoJSONH_def thenH_def readH_def throwH_def)

text \<open>
  C10. Whatever value is passed to \<^verbatim>\<open>processGeoJSON\<close>, and whether the call returns or
  throws, every cell that was in the store before the call is in it unchanged after the
  call, and so the tree of the value passed is the same as before: all writes of the call
  go to the cells of the copy and to cells allocated later.
\<close>

theorem processGeoJSONH_leaves_input:
  "take (length h) (snd (processGeoJSONH clock data h)) = h \<and>
   treeOf (snd (processGeoJSONH clock data h)) data = treeOf h data"
proof
  show prefix: "take (length h) (snd (processGeoJSONH clock data h)) = h"
    by (rule processGeoJSONH_prefix)
  show "treeOf (snd (processGeoJSONH clock data h)) data = treeOf h data"
  proof (cases "treeOf h data")
    case None
    then show ?thesis
      by (simp add: processGeoJSONH_no_tree)
  next
    case (Some t)
    with treeOf_extend [OF prefix, of data] show ?thesis
      by simp
  qed
qed

text \<open>
  \<^verbatim>\<open>JSON.parse\<close> gives a value whose tree is the text that was parsed, held in cells
  that did not exist before: the copy is equal to what was read and shares nothing with it.
\<close>

lemma allocJson_prefix:
  "take (length h) (snd (allocJson t h)) = h"
  "take (length h) (snd (allocList ts h)) = h"
  "take (length h) (snd (allocFields fs h)) = h"
  using allocJson_frame [of "length h" h] by (simp_all add: closedFrom_start)

lemma reify_prefix:
  "reify k h v = Some t \<Longrightarrow> take (length h) h' = h \<Longrightarrow> reify (length h') h' v = Some t"
  if "k \<le> length h" for k
  using reify_extend [of k h v t h' "length h'"] that prefix_length [of h h'] by simp

lemma allocJson_tree:
  "reify (length (snd (allocJson t h))) (snd (allocJson t h)) (fst (allocJson t h)) = Some t"
  "those (map (reify (length (snd (allocList ts h))) (snd (allocList ts h)))
     (fst (allocList ts h))) = Some ts"
  "those (map (\<lambda>(k, v). map_option (Pair k)
       (reify (length (snd (allocFields fs h))) (snd (allocFields fs h)) v))
     (fst (allocFields fs h))) = Some fs"
proof (induction t h and ts h and fs h rule: allocJson_allocList_allocFields.induct)
  case (6 xs h)
  obtain vs h1 where xs: "allocList xs h = (vs, h1)"
    by (cases "allocList xs h")
  with 6 have "those (map (reify (length h1) h1) vs) = Some xs"
    by simp
  then have "those (map (reify (length h1) (h1 @ [ArrayCell vs])) vs) = Some xs"
  proof (rule those_map_cong)
    fix x y
    assume "reify (length h1) h1 x = Some y"
    then show "reify (length h1) (h1 @ [ArrayCell vs]) x = Some y"
      by (rule reify_extend) simp_all
  qed
  with xs show ?case
    by (simp add: alloc_def)
next
  case (7 fs h)
  obtain es h1 where fs: "allocFields fs h = (es, h1)"
    by (cases "allocFields fs h")
  with 7 have "those (map (\<lambda>(k, v). map_option (Pair k) (reify (length h1) h1 v)) es) = Some fs"
    by simp
  then have "those (map (\<lambda>(k, v). map_option (Pair k)
      (reify (length h1) (h1 @ [ObjectCell es]) v)) es) = Some fs"
  proof (rule those_map_cong)
    fix x y
    assume field: "(case x of (k, v) \<Rightarrow> map_option (Pair k) (reify (length h1) h1 v)) = Some y"
    show "(case x of (k, v) \<Rightarrow>
        map_option (Pair k) (reify (length h1) (h1 @ [ObjectCell es]) v)) = Some y"
    proof (cases x)
      case (Pair k v)
      with field obtain z where z: "reify (length h1) h1 v = Some z" and y: "y = (k, z)"
        by auto
      from z have "reify (length h1) (h1 @ [ObjectCell es]) v = Some z"
        by (rule reify_extend) simp_all
      with Pair y show ?thesis
        by simp
    qed
  qed
  with fs show ?case
    by (simp add: alloc_def)
next
  case (9 x xs h)
  obtain v h1 where x: "allocJson x h = (v, h1)"
    by (cases "allocJson x h")
  obtain vs h2 where xs: "allocList xs h1 = (vs, h2)"
    by (cases "allocList xs h1")
  from 9(1) x have "reify (length h1) h1 v = Some x"
    by simp
  moreover from allocJson_prefix(2) [of h1 xs] xs have "take (length h1) h2 = h1"
    by simp
  ultimately have "reify (length h2) h2 v = Some x"
    by (rule reify_prefix [OF order_refl])
  moreover from 9(2) [OF x [symmetric]] xs have "those (map (reify (length h2) h2) vs) = Some xs"
    by simp
  ultimately show ?case
    using x xs by simp
next
  case (11 f fs h)
  obtain v h1 where f: "allocJson (snd f) h = (v, h1)"
    by (cases "allocJson (snd f) h")
  obtain es h2 where fs: "allocFields fs h1 = (es, h2)"
    by (cases "allocFields fs h1")
  from 11(1) f have "reify (length h1) h1 v = Some (snd f)"
    by simp
  moreover from allocJson_prefix(3) [of h1 fs] fs have "take (length h1) h2 = h1"
    by simp
  ultimately have "reify (length h2) h2 v = Some (snd f)"
    by (rule reify_prefix [OF order_refl])
  moreover from 11(2) [OF f [symmetric]] fs
  have "those (map (\<lambda>(k, v). map_option (Pair k) (reify (length h2) h2 v)) es) = Some fs"
    by simp
  ultimately show ?case
    using f fs by simp
qed simp_all

lemma parseH_tree:
  "parseH t h = (r, h') \<Longrightarrow> \<exists>v. r = Inr v \<and> treeOf h' v = Some t \<and> freshVal (length h) v \<and>
     take (length h) h' = h"
  using allocJson_tree(1) [of t h] allocJson_prefix(1) [of h t]
    allocJson_frame(1) [of "length h" h t]
  by (auto simp: parseH_def treeOf_def closedFrom_start split: prod.splits)

text \<open>
  The copy is what protects the caller: \<^verbatim>\<open>processFeature\<close> itself writes into the
  object it is given, and \<^verbatim>\<open>processGeoJSON\<close> hands it the copy.
\<close>

lemmas action_defs =
  thenH_def readH_def returnH_def throwH_def liftH_def allocH_def setFieldH_def parseH_def
  getField_def fieldOf_def setField_def alloc_def treeOf_def

lemma processFeatureH_in_place:
  "processFeatureH now (HRef 0) [ObjectCell [(''type'', HStr ''Feature'')]] =
     (Inr (HRef 0),
      [ObjectCell [(''type'', HStr ''Feature''), (''properties'', HRef 2)],
       ObjectCell [(''processed_at'', HStr now)],
       ObjectCell [(''processed_at'', HStr now)]])"
proof -
  have "standardizePropertiesH [(''processed_at'', HStr now)] = [(''processed_at'', HStr now)]"
    by (simp add: standardizePropertiesH_def applyMappingH_def propertyMappings_def
        standardizeValueAtH_def fieldOf_def objectPrototypeLookup_def)
  then show ?thesis
    by (simp add: ensurePropertiesH_def stampProcessedAtH_def standardizeStored_def
        addCalculatedAreaH_def action_defs)
qed

lemma processGeoJSONH_on_copy:
  "processGeoJSONH clock (HRef 0) [ObjectCell [(''type'', HStr ''Feature'')]] =
     (Inr (HRef 5),
      [ObjectCell [(''type'', HStr ''Feature'')],
       ObjectCell [(''type'', HStr ''Feature''), (''properties'', HRef 3)],
       ObjectCell [(''processed_at'', HStr (clock 0))],
       ObjectCell [(''processed_at'', HStr (clock 0))],
       ArrayCell [HRef 1],
       ObjectCell [(''type'', HStr ''FeatureCollection''), (''features'', HRef 4)]])"
proof -
  have "standardizePropertiesH [(''processed_at'', HStr (clock 0))]
      = [(''processed_at'', HStr (clock 0))]"
    by (simp add: standardizePropertiesH_def applyMappingH_def propertyMappings_def
        standardizeValueAtH_def fieldOf_def objectPrototypeLookup_def)
  then show ?thesis
    by (simp add: processGeoJSONH_def jsonClone_def wrapFeaturesH_def
        ensurePropertiesH_def stampProcessedAtH_def standardizeStored_def
        addCalculatedAreaH_def action_defs)
qed

text \<open>
  On this store the call returns the value whose tree the tree model computes for the tree
  of the argument.
\<close>

lemma processGeoJSONH_agrees_example:
  "processGeoJSONH fixedClock (HRef 1)
     [ObjectCell [(''RISK_LEVEL'', HStr ''RED'')],
      ObjectCell [(''type'', HStr ''Feature''), (''properties'', HRef 0)]] =
     (Inr (HRef 6),
      [ObjectCell [(''RISK_LEVEL'', HStr ''RED'')],
       ObjectCell [(''type'', HStr ''Feature''), (''properties'', HRef 0)],
       ObjectCell [(''RISK_LEVEL'', HStr ''RED''), (''processed_at'', HStr (fixedClock 0))],
       ObjectCell [(''type'', HStr ''Feature''), (''properties'', HRef 4)],
       ObjectCell [(''processed_at'', HStr (fixedClock 0)), (''risk_level'', HStr ''extreme'')],
       ArrayCell [HRef 3],
       ObjectCell [(''type'', HStr ''FeatureCollection''), (''features'', HRef 5)]])"
  "treeOf
     [ObjectCell [(''RISK_LEVEL'', HStr ''RED'')],
      ObjectCell [(''type'', HStr ''Feature''), (''properties'', HRef 0)],
      ObjectCell [(''RISK_LEVEL'', HStr ''RED''), (''processed_at'', HStr (fixedClock 0))],
      ObjectCell [(''type'', HStr ''Feature''), (''properties'', HRef 4)],
      ObjectCell [(''processed_at'', HStr (fixedClock 0)), (''risk_level'', HStr ''extreme'')],
      ArrayCell [HRef 3],
      ObjectCell [(''type'', HStr ''FeatureCollection''), (''features'', HRef 5)]] (HRef 6) =
     Some (featureCollection
       [JObj [(''type'', JStr ''Feature''),
              (''properties'', JObj [(''processed_at'', JStr (fixedClock 0)),
                                     (''risk_level'', JStr ''extreme'')])]])"
  "processGeoJSON fixedClock
     (JObj [(''type'', JStr ''Feature''),
            (''properties'', JObj [(''RISK_LEVEL'', JStr ''RED'')])]) =
     Inr (featureCollection
       [JObj [(''type'', JStr ''Feature''),
              (''properties'', JObj [(''processed_at'', JStr (fixedClock 0)),
                                     (''risk_level'', JStr ''extreme'')])]])"
proof -
  have stored: "standardizePropertiesH
      [(''RISK_LEVEL'', HStr ''RED''), (''processed_at'', HStr (fixedClock 0))]
      = [(''processed_at'', HStr (fixedClock 0)), (''risk_level'', HStr ''extreme'')]"
    by (simp add: standardizePropertiesH_def applyMappingH_def propertyMappings_def
        standardizeValueAtH_def fieldOf_def objectPrototypeLookup_def standardizeRiskLevel_red
        fixedClock_def del: standardizeRiskLevel.simps)
  show "processGeoJSONH fixedClock (HRef 1)
     [ObjectCell [(''RISK_LEVEL'', HStr ''RED'')],
      ObjectCell [(''type'', HStr ''Feature''), (''properties'', HRef 0)]] =
     (Inr (HRef 6),
      [ObjectCell [(''RISK_LEVEL'', HStr ''RED'')],
       ObjectCell [(''type'', HStr ''Feature''), (''properties'', HRef 0)],
       ObjectCell [(''RISK_LEVEL'', HStr ''RED''), (''processed_at'', HStr (fixedClock 0))],
       ObjectCell [(''type'', HStr ''Feature''), (''properties'', HRef 4)],
       ObjectCell [(''processed_at'', HStr (fixedClock 0)), (''risk_level'', HStr ''extreme'')],
       ArrayCell [HRef 3],
       ObjectCell [(''type'', HStr ''FeatureCollection''), (''features'', HRef 5)]])"
    using stored
    by (simp add: processGeoJSONH_def jsonClone_def wrapFeaturesH_def
        ensurePropertiesH_def stampProcessedAtH_def standardizeStored_def
        addCalculatedAreaH_def action_defs)
  show "treeOf
     [ObjectCell [(''RISK_LEVEL'', HStr ''RED'')],
      ObjectCell [(''type'', HStr ''Feature''), (''properties'', HRef 0)],
      ObjectCell [(''RISK_LEVEL'', HStr ''RED''), (''processed_at'', HStr (fixedClock 0))],
      ObjectCell [(''type'', HStr ''Feature''), (''properties'', HRef 4)],
      ObjectCell [(''processed_at'', HStr (fixedClock 0)), (''risk_level'', HStr ''extreme'')],
      ArrayCell [HRef 3],
      ObjectCell [(''type'', HStr ''FeatureCollection''), (''features'', HRef 5)]] (HRef 6) =
     Some (featureCollection
       [JObj [(''type'', JStr ''Feature''),
              (''properties'', JObj [(''processed_at'', JStr (fixedClock 0)),
                                     (''risk_level'', JStr ''extreme'')])]])"
    by (simp add: treeOf_def featureCollection_def eval_nat_numeral)
  have "standardizeProperties
      [(''RISK_LEVEL'', JStr ''RED''), (''processed_at'', JStr (fixedClock 0))]
      = [(''processed_at'', JStr (fixedClock 0)), (''risk_level'', JStr ''extreme'')]"
    by (simp add: standardizeProperties_def applyMappings_def propertyMappings_def
        applyMapping_def standardizeValueAt_def objectPrototypeLookup_def
        standardizeRiskLevel_red fixedClock_def del: standardizeRiskLevel.simps)
  then show "processGeoJSON fixedClock
     (JObj [(''type'', JStr ''Feature''),
            (''properties'', JObj [(''RISK_LEVEL'', JStr ''RED'')])]) =
     Inr (featureCollection
       [JObj [(''type'', JStr ''Feature''),
              (''properties'', JObj [(''processed_at'', JStr (fixedClock 0)),
                                     (''risk_level'', JStr ''extreme'')])]])"
    by (simp add: processGeoJSON_def jsonClone_def addCalculatedArea_def)
qed

end
